theory Spec2Isabelle
  imports Complex_Main
begin

section \<open>WebShot: the capture orchestration of \<open>web_screenshot.py\<close>\<close>

text \<open>
  The module drives a headless browser through Playwright, writes images through PIL and
  parses URLs through \<open>urllib.parse\<close>. The embedding keeps the control flow of the source
  (\<open>try\<close>/\<open>except\<close>/\<open>finally\<close>, the loops, the order of the calls) and makes the three
  libraries explicit:
  \<^item> every call to the browser driver, to \<open>time.sleep\<close> and to \<open>mkdir\<close> is recorded in a call
    log; whether it raises, and what a measurement returns, is decided by a record of
    collaborators that may depend on the whole log so far;
  \<^item> the filesystem is a map from paths to pictures;
  \<^item> a loop that may run forever returns \<open>None\<close>.
  Calls to the logger are left out: they neither raise nor influence a result.
\<close>

subsection \<open>Calls, paths, pictures and errors\<close>

datatype pause = ScrollPause | PagePause | PopupPause

datatype path = File string | PageIn string int

datatype picture = Blank int int | Shot bool

datatype action =
    StartPlaywright
  | LaunchChromium bool
  | NewPage "int option" "int option"
  | SetDefaultNavigationTimeout int
  | SetDefaultTimeout int
  | RouteAll
  | Goto string
  | WaitForLoadState
  | ForceEagerImages
  | EvalNumber string
  | ScrollTo int
  | Sleep pause rat
  | WaitForTimeout int
  | SetViewportSize int int
  | Reload
  | Screenshot path bool
  | ClosePage
  | OnDialog
  | QuerySelectorAll string
  | IsVisible string nat
  | Click string nat
  | Mkdir string

datatype error = ValueError | AttributeError | ZeroDivisionError | DriverError action

text \<open>
  \<open>File p\<close> is the path string \<open>p\<close>; \<open>PageIn d k\<close> is
  \<^verbatim>\<open>str(Path(d) / f"page_{k}.png")\<close>. \<open>Blank w h\<close> is the white RGB image of
  \<open>_create_blank_image\<close>; \<open>Shot full\<close> is what \<open>page.screenshot\<close> wrote, with its
  \<open>full_page\<close> flag. \<open>Sleep\<close> carries the call site of \<open>time.sleep\<close> and the seconds
  (Python floats that are only passed on are rationals here). \<open>EvalNumber js\<close> is
  \<open>page.evaluate(js)\<close> of an expression that yields a number, \<open>ScrollTo y\<close> is
  \<^verbatim>\<open>page.evaluate(f'window.scrollTo(0, {y})')\<close>, \<open>ForceEagerImages\<close> the script that
  rewrites the \<open>loading\<close> attribute, \<open>WaitForLoadState\<close> the wait for \<open>networkidle\<close>.
\<close>

subsection \<open>URL parsing (\<open>urllib.parse\<close>, CPython 3.11) and \<open>_is_valid_url\<close>\<close>

record ParseResult =
  scheme :: string
  netloc :: string

definition c0_control_or_space :: "char \<Rightarrow> bool" where
  "c0_control_or_space c = ((of_char c :: nat) \<le> 32)"

definition unsafe_byte :: "char \<Rightarrow> bool" where
  "unsafe_byte c = (c = CHR 0x09 \<or> c = CHR 0x0D \<or> c = CHR 0x0A)"

definition ascii_upper :: "char \<Rightarrow> bool" where
  "ascii_upper c = (65 \<le> (of_char c :: nat) \<and> (of_char c :: nat) \<le> 90)"

definition ascii_alpha :: "char \<Rightarrow> bool" where
  "ascii_alpha c = (ascii_upper c \<or> (97 \<le> (of_char c :: nat) \<and> (of_char c :: nat) \<le> 122))"

definition scheme_char :: "char \<Rightarrow> bool" where
  "scheme_char c =
     (ascii_alpha c \<or> (48 \<le> (of_char c :: nat) \<and> (of_char c :: nat) \<le> 57)
      \<or> c = CHR ''+'' \<or> c = CHR ''-'' \<or> c = CHR ''.'')"

definition lower :: "char \<Rightarrow> char" where
  "lower c = (if ascii_upper c then char_of ((of_char c :: nat) + 32) else c)"

definition split_scheme :: "string \<Rightarrow> string \<times> string" where
  "split_scheme url =
     (let pre = takeWhile (\<lambda>c. c \<noteq> CHR '':'') url
      in if CHR '':'' \<in> set url \<and> pre \<noteq> [] \<and> ascii_alpha (hd url) \<and> list_all scheme_char pre
         then (map lower pre, drop (length pre + 1) url)
         else ([], url))"

definition splitnetloc :: "string \<Rightarrow> string" where
  "splitnetloc url =
     takeWhile (\<lambda>c. c \<noteq> CHR ''/'' \<and> c \<noteq> CHR ''?'' \<and> c \<noteq> CHR ''#'') (drop 2 url)"

text \<open>
  \<open>urlsplit\<close> up to the two components the validator reads. The first argument stands for
  the two library checks on a network location that need tables outside this module
  (\<open>_check_bracketed_host\<close> on the text between brackets, \<open>_checknetloc\<close> on non-ASCII
  text): it says whether they raise \<open>ValueError\<close>.
\<close>

definition urlsplit :: "(string \<Rightarrow> bool) \<Rightarrow> string \<Rightarrow> error + ParseResult" where
  "urlsplit rejected url0 =
     (let url1 = dropWhile c0_control_or_space url0;
          url2 = filter (\<lambda>c. \<not> unsafe_byte c) url1;
          (sch, url) = split_scheme url2
      in if take 2 url = ''//'' then
           (let nl = splitnetloc url
            in if (CHR ''['' \<in> set nl \<and> CHR '']'' \<notin> set nl)
                  \<or> (CHR '']'' \<in> set nl \<and> CHR ''['' \<notin> set nl) then Inl ValueError
               else if nl \<noteq> [] \<and> rejected nl then Inl ValueError
               else Inr \<lparr>scheme = sch, netloc = nl\<rparr>)
         else Inr \<lparr>scheme = sch, netloc = []\<rparr>)"

definition urlparse :: "(string \<Rightarrow> bool) \<Rightarrow> string \<Rightarrow> error + ParseResult" where
  "urlparse rejected url = urlsplit rejected url"

text \<open>The first component of \<open>_hostinfo\<close>; the property \<open>hostname\<close> is \<open>None\<close> when it is empty.\<close>

definition hostinfo_host :: "string \<Rightarrow> string" where
  "hostinfo_host nl =
     (let hostinfo = (if CHR ''@'' \<in> set nl then rev (takeWhile (\<lambda>c. c \<noteq> CHR ''@'') (rev nl)) else nl)
      in if CHR ''['' \<in> set hostinfo
         then takeWhile (\<lambda>c. c \<noteq> CHR '']'') (drop 1 (dropWhile (\<lambda>c. c \<noteq> CHR ''['') hostinfo))
         else takeWhile (\<lambda>c. c \<noteq> CHR '':'') hostinfo)"

definition has_hostname :: "ParseResult \<Rightarrow> bool" where
  "has_hostname r = (hostinfo_host (netloc r) \<noteq> [])"

definition is_valid_url :: "(string \<Rightarrow> bool) \<Rightarrow> string \<Rightarrow> bool" where
  "is_valid_url rejected url =
     (case urlparse rejected url of
        Inl e \<Rightarrow> False
      | Inr result \<Rightarrow>
          (scheme result \<noteq> [] \<and> netloc result \<noteq> [])
          \<and> (scheme result = ''http'' \<or> scheme result = ''https''))"

text \<open>
  The validator as the specification words it: the string parses, the scheme is \<open>http\<close> or
  \<open>https\<close>, and the host component is not empty.
\<close>

definition spec_is_valid :: "(string \<Rightarrow> bool) \<Rightarrow> string \<Rightarrow> bool" where
  "spec_is_valid rejected url =
     (case urlparse rejected url of
        Inl e \<Rightarrow> False
      | Inr result \<Rightarrow>
          (scheme result = ''http'' \<or> scheme result = ''https'') \<and> has_hostname result)"

subsection \<open>\<open>ScreenShotConfig\<close>: the declared defaults and the YAML resolver\<close>

record ScreenShotConfig =
  navigation_timeout :: int
  action_timeout :: int
  final_wait :: int
  scroll_delay :: rat
  page_delay :: rat
  request_delay :: rat
  enable_request_throttling :: bool
  viewport_width :: "int option"
  viewport_height :: "int option"
  viewport_auto_adjust :: bool
  max_viewport_width :: int
  max_viewport_height :: int
  headless :: bool
  verbose :: bool

definition default_config :: ScreenShotConfig where
  "default_config =
     \<lparr>navigation_timeout = 60000, action_timeout = 60000, final_wait = 5000,
      scroll_delay = 1, page_delay = 2, request_delay = 1 / 2,
      enable_request_throttling = False,
      viewport_width = None, viewport_height = None, viewport_auto_adjust = False,
      max_viewport_width = 7680, max_viewport_height = 43200,
      headless = True, verbose = False\<rparr>"

text \<open>
  A loaded YAML document is dynamically typed, and the dataclass does not check the values
  it is given, so the resolver works on Python values: \<open>from_yaml\<close> below starts at
  \<open>config_dict\<close> (the loaded document, or \<open>{}\<close>) and returns the fields of the instance
  it builds, as \<open>to_dict\<close> shows them.
\<close>

datatype pyval =
    PNone
  | PBool bool
  | PInt int
  | PFloat rat
  | PStr string
  | PList "pyval list"
  | PDict "(string \<times> pyval) list"

definition declared_defaults :: "(string \<times> pyval) list" where
  "declared_defaults =
     [(''navigation_timeout'', PInt 60000), (''action_timeout'', PInt 60000),
      (''final_wait'', PInt 5000), (''scroll_delay'', PFloat 1), (''page_delay'', PFloat 2),
      (''request_delay'', PFloat (1 / 2)), (''enable_request_throttling'', PBool False),
      (''viewport_width'', PNone), (''viewport_height'', PNone),
      (''viewport_auto_adjust'', PBool False), (''max_viewport_width'', PInt 7680),
      (''max_viewport_height'', PInt 43200), (''headless'', PBool True),
      (''verbose'', PBool False)]"

definition bind_e :: "error + 'a \<Rightarrow> ('a \<Rightarrow> error + 'b) \<Rightarrow> error + 'b" where
  "bind_e m f = (case m of Inl e \<Rightarrow> Inl e | Inr x \<Rightarrow> f x)"

text \<open>\<open>assign section field key dflt flattened\<close> is \<^verbatim>\<open>flattened[field] = section.get(key, dflt)\<close>;
  a section that is not a mapping has no \<open>get\<close>.\<close>

definition assign ::
  "pyval \<Rightarrow> string \<Rightarrow> string \<Rightarrow> pyval \<Rightarrow> (string \<rightharpoonup> pyval) \<Rightarrow> error + (string \<rightharpoonup> pyval)" where
  "assign section field key dflt flattened =
     (case section of
        PDict kvs \<Rightarrow> Inr (flattened(field \<mapsto> (case map_of kvs key of Some v \<Rightarrow> v | None \<Rightarrow> dflt)))
      | _ \<Rightarrow> Inl AttributeError)"

definition flatten_config :: "(string \<times> pyval) list \<Rightarrow> error + (string \<rightharpoonup> pyval)" where
  "flatten_config config =
     bind_e (case map_of config ''browser'' of
               None \<Rightarrow> Inr Map.empty
             | Some s \<Rightarrow> assign s ''headless'' ''headless'' (PInt 60000) Map.empty) (\<lambda>f1.
     bind_e (case map_of config ''timeouts'' of
               None \<Rightarrow> Inr f1
             | Some s \<Rightarrow>
                 bind_e (assign s ''navigation_timeout'' ''navigation_timeout'' (PInt 60000) f1) (\<lambda>f.
                 bind_e (assign s ''action_timeout'' ''action_timeout'' (PInt 60000) f) (\<lambda>f.
                 assign s ''final_wait'' ''final_wait'' (PInt 5000) f))) (\<lambda>f2.
     bind_e (case map_of config ''scroll'' of
               None \<Rightarrow> Inr f2
             | Some s \<Rightarrow> assign s ''scroll_delay'' ''delay'' (PFloat 1) f2) (\<lambda>f3.
     bind_e (case map_of config ''throttling'' of
               None \<Rightarrow> Inr f3
             | Some s \<Rightarrow>
                 bind_e (assign s ''page_delay'' ''page_delay'' (PFloat 2) f3) (\<lambda>f.
                 bind_e (assign s ''request_delay'' ''request_delay'' (PFloat (1 / 2)) f) (\<lambda>f.
                 assign s ''enable_request_throttling'' ''enable_request_throttling'' (PBool True) f))) (\<lambda>f4.
     bind_e (case map_of config ''viewport'' of
               None \<Rightarrow> Inr f4
             | Some s \<Rightarrow>
                 bind_e (assign s ''viewport_width'' ''width'' PNone f4) (\<lambda>f.
                 bind_e (assign s ''viewport_height'' ''height'' PNone f) (\<lambda>f.
                 bind_e (assign s ''viewport_auto_adjust'' ''auto_adjust'' (PBool False) f) (\<lambda>f.
                 bind_e (assign s ''max_viewport_width'' ''max_width'' (PInt 7680) f) (\<lambda>f.
                 assign s ''max_viewport_height'' ''max_height'' (PInt 43200) f))))) (\<lambda>f5.
     (case map_of config ''logging'' of
        None \<Rightarrow> Inr f5
      | Some s \<Rightarrow> assign s ''verbose'' ''verbose'' (PBool False) f5))))))"

text \<open>\<open>cls(**valid_params)\<close>: a field takes the passed value, else its declared default.\<close>

definition construct :: "(string \<rightharpoonup> pyval) \<Rightarrow> (string \<rightharpoonup> pyval)" where
  "construct params =
     (\<lambda>k. case map_of declared_defaults k of
             None \<Rightarrow> None
           | Some d \<Rightarrow> (case params k of Some v \<Rightarrow> Some v | None \<Rightarrow> Some d))"

definition from_yaml :: "(string \<times> pyval) list \<Rightarrow> error + (string \<rightharpoonup> pyval)" where
  "from_yaml config_dict =
     (case flatten_config config_dict of
        Inl e \<Rightarrow> Inl ValueError
      | Inr flattened_config \<Rightarrow>
          (let valid_params = (\<lambda>k. if k \<in> fst ` set declared_defaults then flattened_config k else None)
           in Inr (construct valid_params)))"

subsection \<open>Collaborators, the world, and programs over it\<close>

record env =
  fails :: "action list \<Rightarrow> action \<Rightarrow> bool"
  js_value :: "action list \<Rightarrow> string \<Rightarrow> int"
  n_matches :: "action list \<Rightarrow> string \<Rightarrow> nat"
  visible :: "action list \<Rightarrow> string \<Rightarrow> nat \<Rightarrow> bool"
  clock :: string
  netloc_rejected :: "string \<Rightarrow> bool"

text \<open>
  \<open>fails h a\<close>: the call \<open>a\<close>, issued after the calls \<open>h\<close>, raises. \<open>js_value h js\<close>: the
  number the page returns for \<open>js\<close>. \<open>n_matches h sel\<close>: how many elements
  \<open>query_selector_all\<close> finds; \<open>visible h sel i\<close>: what \<open>is_visible\<close> says of the
  \<open>i\<close>-th. \<open>clock\<close>: \<^verbatim>\<open>datetime.now().strftime("%Y-%m-%d_%H-%M-%S")\<close>.
\<close>

record world =
  is_open :: bool
  calls :: "action list"
  files :: "path \<rightharpoonup> picture"

type_synonym 'a prog = "world \<Rightarrow> ((error + 'a) \<times> world) option"

definition return :: "'a \<Rightarrow> 'a prog" where
  "return x w = Some (Inr x, w)"

definition raise :: "error \<Rightarrow> 'a prog" where
  "raise e w = Some (Inl e, w)"

definition bind_prog :: "'a prog \<Rightarrow> ('a \<Rightarrow> 'b prog) \<Rightarrow> 'b prog" where
  "bind_prog m f w =
     (case m w of
        None \<Rightarrow> None
      | Some (Inl e, w') \<Rightarrow> Some (Inl e, w')
      | Some (Inr x, w') \<Rightarrow> f x w')"

text \<open>\<^verbatim>\<open>try: m  except Exception: pass\<close>\<close>

definition swallow :: "'a prog \<Rightarrow> unit prog" where
  "swallow m w = (case m w of None \<Rightarrow> None | Some (r, w') \<Rightarrow> Some (Inr (), w'))"

definition call :: "env \<Rightarrow> action \<Rightarrow> unit prog" where
  "call e a w =
     (let w' = w\<lparr>calls := calls w @ [a]\<rparr>
      in if fails e (calls w) a then Some (Inl (DriverError a), w') else Some (Inr (), w'))"

definition evaluate :: "env \<Rightarrow> string \<Rightarrow> int prog" where
  "evaluate e js w =
     bind_prog (call e (EvalNumber js)) (\<lambda>_. return (js_value e (calls w) js)) w"

definition query_selector_all :: "env \<Rightarrow> string \<Rightarrow> nat prog" where
  "query_selector_all e sel w =
     bind_prog (call e (QuerySelectorAll sel)) (\<lambda>_. return (n_matches e (calls w) sel)) w"

definition element_is_visible :: "env \<Rightarrow> string \<Rightarrow> nat \<Rightarrow> bool prog" where
  "element_is_visible e sel i w =
     bind_prog (call e (IsVisible sel i)) (\<lambda>_. return (visible e (calls w) sel i)) w"

definition write_file :: "path \<Rightarrow> picture \<Rightarrow> world \<Rightarrow> world" where
  "write_file p img w = w\<lparr>files := (files w)(p \<mapsto> img)\<rparr>"

definition screenshot :: "env \<Rightarrow> path \<Rightarrow> bool \<Rightarrow> unit prog" where
  "screenshot e p full_page =
     bind_prog (call e (Screenshot p full_page)) (\<lambda>_ w. Some (Inr (), write_file p (Shot full_page) w))"

text \<open>
  The two calls the source makes outside every handler, the write of the blank image and
  \<open>page.close()\<close>, are taken as total: the source has no branch for their failure.
\<close>

definition create_blank_image :: "path \<Rightarrow> int \<Rightarrow> int \<Rightarrow> world \<Rightarrow> world" where
  "create_blank_image output_path width height w = write_file output_path (Blank width height) w"

definition close_page :: "world \<Rightarrow> world" where
  "close_page w = w\<lparr>calls := calls w @ [ClosePage]\<rparr>"

definition floor_div :: "int \<Rightarrow> int \<Rightarrow> int prog" where
  "floor_div a b = (if b = 0 then raise ZeroDivisionError else return (a div b))"

definition py_range :: "int \<Rightarrow> int list" where
  "py_range n = map int [0..<nat n]"

subsection \<open>The helpers of \<open>WebScreenShot\<close>\<close>

definition open_browser :: "env \<Rightarrow> ScreenShotConfig \<Rightarrow> unit prog" where
  "open_browser e cfg w =
     (if \<not> is_open w then
        bind_prog (call e StartPlaywright) (\<lambda>_.
        bind_prog (call e (LaunchChromium (headless cfg))) (\<lambda>_ w'.
        Some (Inr (), w'\<lparr>is_open := True\<rparr>))) w
      else return () w)"

definition setup_page :: "env \<Rightarrow> ScreenShotConfig \<Rightarrow> bool \<Rightarrow> unit prog" where
  "setup_page e cfg auto_adjust =
     bind_prog (\<lambda>w. if \<not> is_open w then open_browser e cfg w else return () w) (\<lambda>_.
     bind_prog (call e (NewPage (if \<not> auto_adjust then viewport_width cfg else None)
                                (if \<not> auto_adjust then viewport_height cfg else None))) (\<lambda>_.
     bind_prog (call e (SetDefaultNavigationTimeout (navigation_timeout cfg))) (\<lambda>_.
     bind_prog (call e (SetDefaultTimeout (action_timeout cfg))) (\<lambda>_.
     if enable_request_throttling cfg then call e RouteAll else return ()))))"

definition popup_selectors :: "string list" where
  "popup_selectors =
     [''button[aria-label='Close']'',
      ''button.close'',
      ''button[type='button'][aria-label*='close' i]'',
      ''[role='button'][aria-label*='close' i]'',
      ''.modal-close'',
      ''.popup-close'',
      ''[class*='close-btn']'',
      ''[class*='dismiss']'',
      ''.cookie-notice button[type='button']'',
      ''[data-testid='cookie-accept']'',
      ''[role='alertdialog'] button'',
      ''[role='dialog'] button:first-of-type'']"

primrec click_visible :: "env \<Rightarrow> string \<Rightarrow> nat list \<Rightarrow> unit prog" where
  "click_visible e sel [] = return ()"
| "click_visible e sel (i # elements) =
     bind_prog (element_is_visible e sel i) (\<lambda>v.
     bind_prog (if v then bind_prog (call e (Click sel i)) (\<lambda>_. call e (Sleep PopupPause (3 / 10)))
                else return ()) (\<lambda>_.
     click_visible e sel elements))"

primrec dismiss_selectors :: "env \<Rightarrow> string list \<Rightarrow> unit prog" where
  "dismiss_selectors e [] = return ()"
| "dismiss_selectors e (selector # selectors) =
     bind_prog (swallow (bind_prog (query_selector_all e selector) (\<lambda>n.
                         click_visible e selector [0..<n]))) (\<lambda>_.
     dismiss_selectors e selectors)"

definition dismiss_popups :: "env \<Rightarrow> unit prog" where
  "dismiss_popups e =
     swallow (bind_prog (call e OnDialog) (\<lambda>_. dismiss_selectors e popup_selectors))"

definition adjust_viewport_to_page :: "env \<Rightarrow> ScreenShotConfig \<Rightarrow> unit prog" where
  "adjust_viewport_to_page e cfg =
     bind_prog (evaluate e ''document.documentElement.scrollWidth'') (\<lambda>page_width.
     bind_prog (evaluate e ''document.documentElement.scrollHeight'') (\<lambda>page_height.
     bind_prog (call e (SetViewportSize (min page_width (max_viewport_width cfg))
                                        (min page_height (max_viewport_height cfg)))) (\<lambda>_.
     bind_prog (call e Reload) (\<lambda>_.
     call e WaitForLoadState))))"

text \<open>
  One round of the \<open>while\<close> loop of \<open>_scroll_and_load\<close>: scroll to the new offset, sleep
  \<open>scroll_delay\<close> seconds, measure the height again. The loop returns its two variables
  when it exits.
\<close>

definition scroll_step :: "env \<Rightarrow> rat \<Rightarrow> int \<Rightarrow> int prog" where
  "scroll_step e delay scroll_position =
     bind_prog (call e (ScrollTo scroll_position)) (\<lambda>_.
     bind_prog (call e (Sleep ScrollPause delay)) (\<lambda>_.
     evaluate e ''document.body.scrollHeight''))"

partial_function (option) scroll_loop ::
  "env \<Rightarrow> rat \<Rightarrow> int \<Rightarrow> int \<Rightarrow> int \<Rightarrow> world \<Rightarrow> ((error + int \<times> int) \<times> world) option" where
  "scroll_loop e delay vp_height scroll_position total_height w =
     (if scroll_position < total_height then
        (case scroll_step e delay (scroll_position + vp_height) w of
           None \<Rightarrow> None
         | Some (Inl x, w') \<Rightarrow> Some (Inl x, w')
         | Some (Inr total_height', w') \<Rightarrow>
             scroll_loop e delay vp_height (scroll_position + vp_height) total_height' w')
      else Some (Inr (scroll_position, total_height), w))"

declare scroll_loop.simps [code]

definition scroll_and_load :: "env \<Rightarrow> ScreenShotConfig \<Rightarrow> unit prog" where
  "scroll_and_load e cfg =
     bind_prog (call e ForceEagerImages) (\<lambda>_.
     bind_prog (evaluate e ''window.innerHeight'') (\<lambda>vp_height.
     bind_prog (evaluate e ''document.body.scrollHeight'') (\<lambda>total_height.
     bind_prog (scroll_loop e (scroll_delay cfg) vp_height 0 total_height) (\<lambda>_.
     return ()))))"

subsection \<open>\<open>capture\<close>\<close>

definition output_file :: "env \<Rightarrow> string option \<Rightarrow> path" where
  "output_file e output_path =
     File (case output_path of None \<Rightarrow> ''screenshot_'' @ clock e @ ''.png'' | Some p \<Rightarrow> p)"

text \<open>The body of the \<open>try\<close> block after \<open>page\<close> has been assigned.\<close>

definition capture_steps :: "env \<Rightarrow> ScreenShotConfig \<Rightarrow> string \<Rightarrow> path \<Rightarrow> bool \<Rightarrow> unit prog" where
  "capture_steps e cfg url output_path use_auto_adjust =
     bind_prog (call e (Goto url)) (\<lambda>_.
     bind_prog (call e WaitForLoadState) (\<lambda>_.
     bind_prog (if use_auto_adjust then adjust_viewport_to_page e cfg
                else scroll_and_load e cfg) (\<lambda>_.
     bind_prog (call e WaitForLoadState) (\<lambda>_.
     bind_prog (call e (WaitForTimeout (final_wait cfg))) (\<lambda>_.
     if use_auto_adjust then screenshot e output_path False
     else screenshot e output_path True)))))"

text \<open>
  \<open>capture\<close>: an exception of \<open>_setup_page\<close> leaves \<open>page\<close> unassigned, so \<open>finally\<close> closes
  nothing; a later exception, or none, closes the page.
\<close>

definition capture ::
  "env \<Rightarrow> ScreenShotConfig \<Rightarrow> string \<Rightarrow> string option \<Rightarrow> bool option \<Rightarrow> world \<Rightarrow> (bool \<times> world) option" where
  "capture e cfg url output_path auto_adjust w =
     (let out = output_file e output_path
      in if \<not> is_valid_url (netloc_rejected e) url then
           Some (False, create_blank_image out 800 600 w)
         else
           (let use_auto_adjust =
                  (case auto_adjust of Some b \<Rightarrow> b | None \<Rightarrow> viewport_auto_adjust cfg)
            in case setup_page e cfg use_auto_adjust w of
                 None \<Rightarrow> None
               | Some (Inl x, w1) \<Rightarrow> Some (False, create_blank_image out 800 600 w1)
               | Some (Inr _, w1) \<Rightarrow>
                   (case capture_steps e cfg url out use_auto_adjust w1 of
                      None \<Rightarrow> None
                    | Some (Inl x, w2) \<Rightarrow>
                        Some (False, close_page (create_blank_image out 800 600 w2))
                    | Some (Inr _, w2) \<Rightarrow> Some (True, close_page w2))))"

subsection \<open>\<open>capture_multiple_pages\<close>\<close>

definition output_directory :: "env \<Rightarrow> string option \<Rightarrow> string" where
  "output_directory e output_dir =
     (case output_dir of None \<Rightarrow> ''screenshots_'' @ clock e | Some d \<Rightarrow> d)"

text \<open>One round of the \<open>for\<close> loop over \<open>range(num_pages)\<close>.\<close>

definition capture_page :: "env \<Rightarrow> ScreenShotConfig \<Rightarrow> string \<Rightarrow> int \<Rightarrow> int \<Rightarrow> unit prog" where
  "capture_page e cfg output_dir vp_height page_num =
     bind_prog (if page_num > 0 then call e (Sleep PagePause (page_delay cfg)) else return ()) (\<lambda>_.
     bind_prog (call e (ScrollTo (page_num * vp_height))) (\<lambda>_.
     bind_prog (call e WaitForLoadState) (\<lambda>_.
     bind_prog (dismiss_popups e) (\<lambda>_.
     bind_prog (call e (WaitForTimeout (final_wait cfg))) (\<lambda>_.
     screenshot e (PageIn output_dir (page_num + 1)) False)))))"

primrec capture_pages :: "env \<Rightarrow> ScreenShotConfig \<Rightarrow> string \<Rightarrow> int \<Rightarrow> int list \<Rightarrow> unit prog" where
  "capture_pages e cfg output_dir vp_height [] = return ()"
| "capture_pages e cfg output_dir vp_height (page_num # rest) =
     bind_prog (capture_page e cfg output_dir vp_height page_num) (\<lambda>_.
     capture_pages e cfg output_dir vp_height rest)"

text \<open>
  The \<open>try\<close> block after \<open>page\<close> has been assigned, in two parts: up to the two
  measurements (\<open>total_height\<close>, \<open>viewport_height\<close>), and from the page count on.
\<close>

definition measure_page :: "env \<Rightarrow> ScreenShotConfig \<Rightarrow> string \<Rightarrow> (int \<times> int) prog" where
  "measure_page e cfg url =
     bind_prog (call e (Goto url)) (\<lambda>_.
     bind_prog (call e WaitForLoadState) (\<lambda>_.
     bind_prog (scroll_and_load e cfg) (\<lambda>_.
     bind_prog (evaluate e ''document.body.scrollHeight'') (\<lambda>total_height.
     bind_prog (evaluate e ''window.innerHeight'') (\<lambda>vp_height.
     return (total_height, vp_height))))))"

definition pages_from :: "env \<Rightarrow> ScreenShotConfig \<Rightarrow> string \<Rightarrow> int \<Rightarrow> int \<Rightarrow> unit prog" where
  "pages_from e cfg output_dir total_height vp_height =
     bind_prog (floor_div (total_height + vp_height - 1) vp_height) (\<lambda>num_pages.
     capture_pages e cfg output_dir vp_height (py_range num_pages))"

definition multi_steps :: "env \<Rightarrow> ScreenShotConfig \<Rightarrow> string \<Rightarrow> string \<Rightarrow> unit prog" where
  "multi_steps e cfg url output_dir =
     bind_prog (measure_page e cfg url) (\<lambda>(total_height, vp_height).
     pages_from e cfg output_dir total_height vp_height)"

definition capture_multiple_pages ::
  "env \<Rightarrow> ScreenShotConfig \<Rightarrow> string \<Rightarrow> string option \<Rightarrow> world \<Rightarrow> (bool \<times> world) option" where
  "capture_multiple_pages e cfg url output_dir w =
     (let dir = output_directory e output_dir
      in case call e (Mkdir dir) w of
           None \<Rightarrow> None
         | Some (Inl x, w0) \<Rightarrow> Some (False, w0)
         | Some (Inr _, w0) \<Rightarrow>
             if \<not> is_valid_url (netloc_rejected e) url then
               Some (False, create_blank_image (PageIn dir 1) 800 600 w0)
             else
               (case setup_page e cfg False w0 of
                  None \<Rightarrow> None
                | Some (Inl x, w1) \<Rightarrow> Some (False, w1)
                | Some (Inr _, w1) \<Rightarrow>
                    (case multi_steps e cfg url dir w1 of
                       None \<Rightarrow> None
                     | Some (Inl x, w2) \<Rightarrow> Some (False, close_page w2)
                     | Some (Inr _, w2) \<Rightarrow> Some (True, close_page w2))))"

subsection \<open>Concrete collaborators and inputs\<close>

definition no_rejection :: "string \<Rightarrow> bool" where
  "no_rejection nl = False"

text \<open>A page 2500 pixels high and 9000 wide in a viewport of height 1000; nothing fails;
  two elements match \<open>button.close\<close>, the second of them visible.\<close>

definition calm_env :: env where
  "calm_env =
     \<lparr>fails = (\<lambda>h a. False),
      js_value = (\<lambda>h js. if js = ''window.innerHeight'' then 1000
                          else if js = ''document.documentElement.scrollWidth'' then 9000
                          else 2500),
      n_matches = (\<lambda>h sel. if sel = ''button.close'' then 2 else 0),
      visible = (\<lambda>h sel i. i = 1),
      clock = ''2024-05-01_12-00-00'',
      netloc_rejected = no_rejection\<rparr>"

definition fresh_world :: world where
  "fresh_world = \<lparr>is_open = False, calls = [], files = Map.empty\<rparr>"

text \<open>A page whose height sways between 1200 and 900 in a viewport of height 500.\<close>

definition swaying_env :: env where
  "swaying_env =
     \<lparr>fails = (\<lambda>h a. False),
      js_value = (\<lambda>h js. if js = ''window.innerHeight'' then 500
                          else if even (length h) then 1200 else 900),
      n_matches = (\<lambda>h sel. 0),
      visible = (\<lambda>h sel i. False),
      clock = ''2024-05-01_12-00-00'',
      netloc_rejected = no_rejection\<rparr>"



text \<open>As \<open>calm_env\<close>, but the document has height zero in a viewport of height 600.\<close>

definition flat_env :: env where
  "flat_env = calm_env\<lparr>js_value := (\<lambda>h js. if js = ''window.innerHeight'' then 600 else 0)\<rparr>"

subsection \<open>What a program may log and write\<close>

text \<open>
  \<open>confined P Q m\<close>: whenever \<open>m\<close> returns, the calls it has added to the log all satisfy
  \<open>P\<close>, and every file it has changed now holds a picture that satisfies \<open>Q\<close>.
  \<open>no_shot\<close>: the call is no screenshot; \<open>shot_is out full\<close>: if the call is a
  screenshot, it is one to \<open>out\<close> with \<open>full_page = full\<close>; \<open>popup_call\<close>: the call
  is one of \<open>_dismiss_popups\<close>. \<open>setup_calls\<close>: the calls of a \<open>_setup_page\<close> in which
  nothing raises.
\<close>

definition no_shot :: "action \<Rightarrow> bool" where
  "no_shot a = (case a of Screenshot p full \<Rightarrow> False | _ \<Rightarrow> True)"

definition never :: "path \<Rightarrow> picture \<Rightarrow> bool" where
  "never p pic = False"

definition confined :: "(action \<Rightarrow> bool) \<Rightarrow> (path \<Rightarrow> picture \<Rightarrow> bool) \<Rightarrow> 'a prog \<Rightarrow> bool" where
  "confined P Q m =
     (\<forall>w r w'. m w = Some (r, w') \<longrightarrow>
        (\<exists>ext. calls w' = calls w @ ext \<and> list_all P ext)
        \<and> (\<forall>p. files w' p = files w p \<or> (\<exists>pic. files w' p = Some pic \<and> Q p pic)))"

definition shot_is :: "path \<Rightarrow> bool \<Rightarrow> action \<Rightarrow> bool" where
  "shot_is out full a = (case a of Screenshot p f \<Rightarrow> p = out \<and> f = full | _ \<Rightarrow> True)"

definition popup_call :: "action \<Rightarrow> bool" where
  "popup_call a =
     (case a of
        OnDialog \<Rightarrow> True
      | QuerySelectorAll sel \<Rightarrow> True
      | IsVisible sel i \<Rightarrow> True
      | Click sel i \<Rightarrow> True
      | Sleep site d \<Rightarrow> site = PopupPause
      | _ \<Rightarrow> False)"

definition setup_calls :: "ScreenShotConfig \<Rightarrow> bool \<Rightarrow> bool \<Rightarrow> action list" where
  "setup_calls cfg auto_adjust opened =
     (if opened then [] else [StartPlaywright, LaunchChromium (headless cfg)])
     @ [NewPage (if \<not> auto_adjust then viewport_width cfg else None)
                (if \<not> auto_adjust then viewport_height cfg else None),
        SetDefaultNavigationTimeout (navigation_timeout cfg),
        SetDefaultTimeout (action_timeout cfg)]
     @ (if enable_request_throttling cfg then [RouteAll] else [])"

text \<open>
  \<open>chatter P m\<close>: \<open>m\<close> always returns, and changes nothing but the log, to which it adds
  calls that satisfy \<open>P\<close>.
\<close>

definition chatter :: "(action \<Rightarrow> bool) \<Rightarrow> 'a prog \<Rightarrow> bool" where
  "chatter P m = (\<forall>w. \<exists>r ext. m w = Some (r, w\<lparr>calls := calls w @ ext\<rparr>) \<and> list_all P ext)"

subsection \<open>The pacing of \<open>capture_multiple_pages\<close>\<close>

text \<open>
  \<open>steady e base\<close>: after the calls \<open>base\<close>, no call fails but those of the popup dismissal
  (whose failures are swallowed). \<open>paced_shots d dir n\<close>: the screenshot of page 1, then for
  each page from 2 to \<open>n\<close> a pacing sleep of \<open>d\<close> seconds followed by its screenshot.
  \<open>page_trace\<close> lists the same calls along the loop over the page numbers.
\<close>

definition steady :: "env \<Rightarrow> action list \<Rightarrow> bool" where
  "steady e base = (\<forall>h a. fails e (base @ h) a \<longrightarrow> popup_call a)"

definition page_pause :: "action \<Rightarrow> bool" where
  "page_pause a = (case a of Sleep site d \<Rightarrow> site = PagePause | _ \<Rightarrow> False)"

definition pacing_or_shot :: "action \<Rightarrow> bool" where
  "pacing_or_shot a = (page_pause a \<or> \<not> no_shot a)"

definition page_trace :: "rat \<Rightarrow> string \<Rightarrow> int list \<Rightarrow> action list" where
  "page_trace d dir ks =
     concat (map (\<lambda>k. (if k > 0 then [Sleep PagePause d] else [])
                        @ [Screenshot (PageIn dir (k + 1)) False]) ks)"

definition paced_shots :: "rat \<Rightarrow> string \<Rightarrow> nat \<Rightarrow> action list" where
  "paced_shots d dir n =
     (if n = 0 then []
      else Screenshot (PageIn dir 1) False
           # concat (map (\<lambda>k. [Sleep PagePause d, Screenshot (PageIn dir (int k)) False])
                         [2..<Suc n]))"

section \<open>Properties\<close>

subsection \<open>The URL validator\<close>

lemmas url_defs = is_valid_url_def urlparse_def urlsplit_def split_scheme_def
  splitnetloc_def c0_control_or_space_def unsafe_byte_def ascii_alpha_def ascii_upper_def
  scheme_char_def lower_def no_rejection_def

lemma hostinfo_host_Nil: "hostinfo_host [] = []"
  by (simp add: hostinfo_host_def)

text \<open>
  Every \<open>http://host/...\<close> and \<open>https://host/...\<close> is accepted, for a non-empty host
  without delimiters, brackets, tabs and line breaks that the library checks let pass.
\<close>

lemma well_formed_accepted:
  assumes host: "host \<noteq> []"
    and plain: "\<forall>c \<in> set host. c \<noteq> CHR ''/'' \<and> c \<noteq> CHR ''?'' \<and> c \<noteq> CHR ''#''
                  \<and> c \<noteq> CHR ''['' \<and> c \<noteq> CHR '']'' \<and> \<not> unsafe_byte c"
    and ok: "\<not> rejected host"
    and sch: "sch = ''http'' \<or> sch = ''https''"
  shows "is_valid_url rejected (sch @ ''://'' @ host @ ''/'' @ rest)"
proof -
  let ?rest = "filter (\<lambda>c. \<not> unsafe_byte c) rest"
  have fh: "filter (\<lambda>c. \<not> unsafe_byte c) host = host"
    using plain by (simp add: filter_id_conv)
  have tw: "takeWhile (\<lambda>c. c \<noteq> CHR ''/'' \<and> c \<noteq> CHR ''?'' \<and> c \<noteq> CHR ''#'') (host @ CHR ''/'' # ?rest) = host"
    using plain by (simp add: takeWhile_append2)
  have br: "CHR ''['' \<notin> set host" "CHR '']'' \<notin> set host" using plain by auto
  from sch show ?thesis
  proof
    assume "sch = ''http''"
    then show ?thesis
      using host ok fh tw br
      by (simp add: is_valid_url_def urlparse_def urlsplit_def split_scheme_def splitnetloc_def
                    c0_control_or_space_def unsafe_byte_def ascii_alpha_def ascii_upper_def
                    scheme_char_def lower_def)
  next
    assume "sch = ''https''"
    then show ?thesis
      using host ok fh tw br
      by (simp add: is_valid_url_def urlparse_def urlsplit_def split_scheme_def splitnetloc_def
                    c0_control_or_space_def unsafe_byte_def ascii_alpha_def ascii_upper_def
                    scheme_char_def lower_def)
  qed
qed

text \<open>
  \<open>http://:80\<close> parses with scheme \<open>http\<close> and network location \<open>:80\<close>, whose host is
  empty: the validator accepts it, the validator of the specification's wording does not.
\<close>

theorem validator_host_counterexample:
  "is_valid_url no_rejection ''http://:80'' \<and> \<not> spec_is_valid no_rejection ''http://:80''"
  by (simp add: url_defs spec_is_valid_def has_hostname_def hostinfo_host_def)

text \<open>
  Claim C6, as amended. For every input string the validator returns true if and only if
  the string parses with scheme \<open>http\<close> or \<open>https\<close> and a non-empty network location (the
  text after \<open>//\<close> up to the next \<open>/\<close>, \<open>?\<close> or \<open>#\<close>, which may hold user information or
  a port around an empty host). It is a function of the string alone; where parsing raises
  it returns false; and every string with such a scheme and a non-empty host is accepted.
\<close>

theorem is_valid_url_iff:
  "(is_valid_url rejected url \<longleftrightarrow>
      (\<exists>r. urlparse rejected url = Inr r
           \<and> (scheme r = ''http'' \<or> scheme r = ''https'') \<and> netloc r \<noteq> []))
   \<and> (\<forall>x. urlparse rejected url = Inl x \<longrightarrow> \<not> is_valid_url rejected url)
   \<and> (spec_is_valid rejected url \<longrightarrow> is_valid_url rejected url)"
  by (auto simp: is_valid_url_def spec_is_valid_def has_hostname_def hostinfo_host_Nil
           split: sum.splits)

theorem is_valid_url_iff_witness:
  "urlparse no_rejection ''http://[::1'' = Inl ValueError
   \<and> \<not> is_valid_url no_rejection ''http://[::1''
   \<and> spec_is_valid no_rejection ''https://example.org/a''
   \<and> is_valid_url no_rejection ''https://example.org/a''"
proof -
  have a: "urlparse no_rejection ''http://[::1'' = Inl ValueError"
    by (simp add: url_defs)
  have b: "spec_is_valid no_rejection ''https://example.org/a''"
    by (simp add: url_defs spec_is_valid_def has_hostname_def hostinfo_host_def)
  from is_valid_url_iff [of no_rejection "''http://[::1''"] a
  have c: "\<not> is_valid_url no_rejection ''http://[::1''" by blast
  from is_valid_url_iff [of no_rejection "''https://example.org/a''"] b
  have d: "is_valid_url no_rejection ''https://example.org/a''" by blast
  from a b c d show ?thesis by blast
qed

subsection \<open>The resolver of the configuration\<close>

text \<open>A document without sections resolves to the declared defaults.\<close>

lemma from_yaml_no_sections: "from_yaml [] = Inr (map_of declared_defaults)"
proof -
  have "construct (\<lambda>k. None) = map_of declared_defaults"
    by (rule ext) (simp add: construct_def split: option.splits)
  then show ?thesis
    by (simp add: from_yaml_def flatten_config_def bind_e_def)
qed

text \<open>
  Claim C8. A key absent from the document should take the declared default of the
  dataclass. The resolver's own fallbacks differ from the declared defaults in two places:
  with a \<open>throttling\<close> section that does not set \<open>enable_request_throttling\<close> the field
  becomes \<open>True\<close> (declared: \<open>False\<close>), and with a \<open>browser\<close> section that does not set
  \<open>headless\<close> the field becomes \<open>60000\<close> (declared: \<open>True\<close>).
\<close>

theorem flatten_defaults_differ:
  "(\<exists>s. from_yaml [(''throttling'', PDict [(''page_delay'', PFloat 3)])] = Inr s
        \<and> s ''enable_request_throttling'' = Some (PBool True)
        \<and> s ''page_delay'' = Some (PFloat 3))
   \<and> (\<exists>s. from_yaml [(''browser'', PDict [])] = Inr s \<and> s ''headless'' = Some (PInt 60000))
   \<and> map_of declared_defaults ''enable_request_throttling'' = Some (PBool False)
   \<and> map_of declared_defaults ''headless'' = Some (PBool True)"
  by (simp add: from_yaml_def flatten_config_def bind_e_def assign_def construct_def
                declared_defaults_def)

subsection \<open>\<open>capture\<close>: the invalid URL and the per-call override\<close>



lemma open_browser_auto_field [simp]:
  "open_browser e (cfg\<lparr>viewport_auto_adjust := b\<rparr>) = open_browser e cfg"
  by (rule ext) (simp add: open_browser_def)

lemma setup_page_auto_field [simp]:
  "setup_page e (cfg\<lparr>viewport_auto_adjust := b\<rparr>) use = setup_page e cfg use"
  by (simp add: setup_page_def cong: if_cong)

lemma capture_steps_auto_field [simp]:
  "capture_steps e (cfg\<lparr>viewport_auto_adjust := b\<rparr>) url out use = capture_steps e cfg url out use"
  by (simp add: capture_steps_def adjust_viewport_to_page_def scroll_and_load_def)

text \<open>
  Claim C7. The mode is resolved per call: \<open>capture\<close> with the override \<open>True\<close> on an
  instance set to \<open>False\<close> is \<open>capture\<close> without override on an instance set to \<open>True\<close>,
  and symmetrically; with an override the instance setting is not read, and without one
  it is the override.
\<close>

theorem capture_override_per_call:
  "capture e (cfg\<lparr>viewport_auto_adjust := False\<rparr>) url output_path (Some True) w =
     capture e (cfg\<lparr>viewport_auto_adjust := True\<rparr>) url output_path None w
   \<and> capture e (cfg\<lparr>viewport_auto_adjust := True\<rparr>) url output_path (Some False) w =
     capture e (cfg\<lparr>viewport_auto_adjust := False\<rparr>) url output_path None w
   \<and> capture e (cfg\<lparr>viewport_auto_adjust := b'\<rparr>) url output_path (Some b) w =
     capture e cfg url output_path (Some b) w
   \<and> capture e cfg url output_path None w =
     capture e cfg url output_path (Some (viewport_auto_adjust cfg)) w"
  by (simp add: capture_def Let_def cong: if_cong option.case_cong sum.case_cong prod.case_cong)

subsection \<open>Programs: results of the primitive calls\<close>

lemma call_result:
  "call e a w =
     Some (if fails e (calls w) a then Inl (DriverError a) else Inr (), w\<lparr>calls := calls w @ [a]\<rparr>)"
  by (simp add: call_def)

lemma bind_prog_return [simp]: "bind_prog (return x) f w = f x w"
  by (simp add: bind_prog_def return_def)

lemma bind_prog_call:
  "bind_prog (call e a) f w =
     (if fails e (calls w) a then Some (Inl (DriverError a), w\<lparr>calls := calls w @ [a]\<rparr>)
      else f () (w\<lparr>calls := calls w @ [a]\<rparr>))"
  by (simp add: bind_prog_def call_def)

lemma evaluate_result:
  "evaluate e js w =
     Some (if fails e (calls w) (EvalNumber js) then Inl (DriverError (EvalNumber js))
           else Inr (js_value e (calls w) js),
           w\<lparr>calls := calls w @ [EvalNumber js]\<rparr>)"
  by (simp add: evaluate_def bind_prog_call return_def)

lemma bind_prog_evaluate:
  "bind_prog (evaluate e js) f w =
     (if fails e (calls w) (EvalNumber js)
      then Some (Inl (DriverError (EvalNumber js)), w\<lparr>calls := calls w @ [EvalNumber js]\<rparr>)
      else f (js_value e (calls w) js) (w\<lparr>calls := calls w @ [EvalNumber js]\<rparr>))"
  by (simp add: bind_prog_def evaluate_result)

subsection \<open>The scroll loop of \<open>_scroll_and_load\<close>\<close>

lemma scroll_step_cases:
  "(\<exists>x w'. scroll_step e d pos w = Some (Inl x, w'))
   \<or> (\<exists>h w'. scroll_step e d pos w = Some (Inr (js_value e h ''document.body.scrollHeight''), w'))"
  by (auto simp: scroll_step_def bind_prog_call evaluate_result)

lemma scroll_loop_exit:
  "total_height \<le> pos \<Longrightarrow> scroll_loop e d vh pos total_height w = Some (Inr (pos, total_height), w)"
  by (subst scroll_loop.simps) simp

lemma scroll_loop_terminates:
  assumes vh: "0 < vh"
    and bound: "\<forall>h. js_value e h ''document.body.scrollHeight'' \<le> B"
  shows "total_height \<le> B \<Longrightarrow>
         \<exists>r w'. scroll_loop e d vh pos total_height w = Some (r, w')
               \<and> (\<forall>p t. r = Inr (p, t) \<longrightarrow> t \<le> p \<and> (pos < total_height \<longrightarrow> pos + vh \<le> p))"
proof (induction "nat (B - pos)" arbitrary: pos total_height w rule: less_induct)
  case less
  show ?case
  proof (cases "pos < total_height")
    case False
    then show ?thesis by (simp add: scroll_loop_exit)
  next
    case True
    from scroll_step_cases [of e d "pos + vh" w]
    show ?thesis
    proof (elim disjE exE)
      fix x w' assume "scroll_step e d (pos + vh) w = Some (Inl x, w')"
      with True show ?thesis by (subst scroll_loop.simps) simp
    next
      fix h w' assume st: "scroll_step e d (pos + vh) w = Some (Inr (js_value e h ''document.body.scrollHeight''), w')"
      let ?t = "js_value e h ''document.body.scrollHeight''"
      have tb: "?t \<le> B" using bound by simp
      have dec: "nat (B - (pos + vh)) < nat (B - pos)" using True less.prems vh by linarith
      from less.hyps [OF dec tb, of w']
      obtain r w'' where run: "scroll_loop e d vh (pos + vh) ?t w' = Some (r, w'')"
        and fin: "\<forall>p t. r = Inr (p, t) \<longrightarrow> t \<le> p \<and> (pos + vh < ?t \<longrightarrow> pos + vh + vh \<le> p)"
        by blast
      have mono: "\<forall>p t. r = Inr (p, t) \<longrightarrow> pos + vh \<le> p"
      proof (intro allI impI)
        fix p t assume r: "r = Inr (p, t)"
        show "pos + vh \<le> p"
        proof (cases "pos + vh < ?t")
          case True with fin r vh show ?thesis by force
        next
          case False
          with run r show ?thesis by (simp add: scroll_loop_exit)
        qed
      qed
      have "scroll_loop e d vh pos total_height w = Some (r, w'')"
        using True st run by (subst scroll_loop.simps) simp
      with fin mono show ?thesis by blast
    qed
  qed
qed

text \<open>So \<open>_scroll_and_load\<close> returns on such a page, normally or with the exception of a call.\<close>

lemma scroll_and_load_returns:
  assumes vh: "\<forall>h. 0 < js_value e h ''window.innerHeight''"
    and bound: "\<forall>h. js_value e h ''document.body.scrollHeight'' \<le> B"
  shows "\<exists>r w'. scroll_and_load e cfg w = Some (r, w')"
proof -
  let ?w1 = "w\<lparr>calls := calls w @ [ForceEagerImages]\<rparr>"
  let ?w2 = "?w1\<lparr>calls := calls ?w1 @ [EvalNumber ''window.innerHeight'']\<rparr>"
  let ?w3 = "?w2\<lparr>calls := calls ?w2 @ [EvalNumber ''document.body.scrollHeight'']\<rparr>"
  let ?vh = "js_value e (calls ?w1) ''window.innerHeight''"
  let ?th = "js_value e (calls ?w2) ''document.body.scrollHeight''"
  have p: "0 < ?vh" using vh by blast
  have b: "?th \<le> B" using bound by blast
  from scroll_loop_terminates [OF p bound b, of "scroll_delay cfg" 0 ?w3]
  obtain r w' where "scroll_loop e (scroll_delay cfg) ?vh 0 ?th ?w3 = Some (r, w')" by blast
  then have "\<exists>r w'. bind_prog (scroll_loop e (scroll_delay cfg) ?vh 0 ?th) (\<lambda>_. return ()) ?w3
                 = Some (r, w')"
    by (cases r) (simp_all add: bind_prog_def return_def)
  then show ?thesis
    by (simp add: scroll_and_load_def bind_prog_call bind_prog_evaluate)
qed

text \<open>
  Claim C9. When the viewport height is positive and every measurement of the document
  height is at most some bound \<open>B\<close> (the heights may go up and down below it), the loop
  returns. It exits at once when the offset has reached the height last measured; while
  the offset is below it the loop scrolls on by one viewport; and on a normal exit the
  offset has reached the height last measured.
\<close>

theorem scroll_loop_bounded_heights:
  assumes "0 < vh"
    and "\<forall>h. js_value e h ''document.body.scrollHeight'' \<le> B"
    and "total_height \<le> B"
  shows "\<exists>r w'. scroll_loop e d vh pos total_height w = Some (r, w')
               \<and> (\<forall>p t. r = Inr (p, t) \<longrightarrow> t \<le> p \<and> (pos < total_height \<longrightarrow> pos + vh \<le> p))
               \<and> (total_height \<le> pos \<longrightarrow> r = Inr (pos, total_height) \<and> w' = w)"
proof -
  from scroll_loop_terminates [OF assms(1) assms(2) assms(3), of d pos w]
  obtain r w' where a: "scroll_loop e d vh pos total_height w = Some (r, w')"
    and b: "\<forall>p t. r = Inr (p, t) \<longrightarrow> t \<le> p \<and> (pos < total_height \<longrightarrow> pos + vh \<le> p)" by blast
  have "total_height \<le> pos \<longrightarrow> r = Inr (pos, total_height) \<and> w' = w"
    using a by (auto simp: scroll_loop_exit)
  with a b show ?thesis by blast
qed

theorem scroll_loop_bounded_heights_witness:
  "(0::int) < 500
   \<and> (\<forall>h. js_value swaying_env h ''document.body.scrollHeight'' \<le> 1200)
   \<and> (\<exists>w'. scroll_loop swaying_env 1 500 0 1200 fresh_world = Some (Inr (1000, 900), w'))"
proof -
  have b: "\<forall>h. js_value swaying_env h ''document.body.scrollHeight'' \<le> 1200"
    by (simp add: swaying_env_def)
  from scroll_loop_bounded_heights [of 500 swaying_env 1200 1200 1 0 fresh_world] b
  obtain r w' where run: "scroll_loop swaying_env 1 500 0 1200 fresh_world = Some (r, w')"
    by auto
  have "fst (the (scroll_loop swaying_env 1 500 0 1200 fresh_world)) = Inr (1000, 900)"
    by (simp add: scroll_loop.simps scroll_step_def bind_prog_call evaluate_result
                  swaying_env_def fresh_world_def)
  with run have "r = Inr (1000, 900)" by simp
  with run b show ?thesis by simp
qed

subsection \<open>Confinement of the helpers\<close>

lemma confinedI:
  assumes "\<And>w r w'. m w = Some (r, w') \<Longrightarrow>
             (\<exists>ext. calls w' = calls w @ ext \<and> list_all P ext)
             \<and> (\<forall>p. files w' p = files w p \<or> (\<exists>pic. files w' p = Some pic \<and> Q p pic))"
  shows "confined P Q m"
  using assms unfolding confined_def by blast

lemma confinedD:
  assumes "confined P Q m" and "m w = Some (r, w')"
  shows "\<exists>ext. calls w' = calls w @ ext \<and> list_all P ext"
    and "files w' p = files w p \<or> (\<exists>pic. files w' p = Some pic \<and> Q p pic)"
  using assms unfolding confined_def by blast+

lemma confined_return: "confined P Q (return x)"
  by (simp add: confined_def return_def)


lemma confined_call: "P a \<Longrightarrow> confined P Q (call e a)"
  by (auto simp: confined_def call_result)

lemma confined_evaluate: "P (EvalNumber js) \<Longrightarrow> confined P Q (evaluate e js)"
  by (auto simp: confined_def evaluate_result)

lemma confined_bind:
  assumes m: "confined P Q m" and f: "\<And>x. confined P Q (f x)"
  shows "confined P Q (bind_prog m f)"
proof (rule confinedI)
  fix w r w' assume run: "bind_prog m f w = Some (r, w')"
  then consider (stop) x where "m w = Some (Inl x, w')"
    | (go) v w1 where "m w = Some (Inr v, w1)" "f v w1 = Some (r, w')"
    by (auto simp: bind_prog_def split: option.splits sum.splits)
  then show "(\<exists>ext. calls w' = calls w @ ext \<and> list_all P ext)
      \<and> (\<forall>p. files w' p = files w p \<or> (\<exists>pic. files w' p = Some pic \<and> Q p pic))"
  proof cases
    case stop
    with confinedD [OF m] show ?thesis by blast
  next
    case go
    from confinedD(1) [OF m go(1)] obtain n1 where
      n1: "calls w1 = calls w @ n1" "list_all P n1" by blast
    from confinedD(1) [OF f go(2)] obtain n2 where
      n2: "calls w' = calls w1 @ n2" "list_all P n2" by blast
    have c: "calls w' = calls w @ (n1 @ n2) \<and> list_all P (n1 @ n2)"
      using n1 n2 by simp
    have "\<forall>p. files w' p = files w p \<or> (\<exists>pic. files w' p = Some pic \<and> Q p pic)"
    proof
      fix p
      from confinedD(2) [OF m go(1), of p] confinedD(2) [OF f go(2), of p]
      show "files w' p = files w p \<or> (\<exists>pic. files w' p = Some pic \<and> Q p pic)" by auto
    qed
    with c show ?thesis by blast
  qed
qed

lemma confined_swallow:
  assumes "confined P Q m"
  shows "confined P Q (swallow m)"
proof (rule confinedI)
  fix w r w' assume "swallow m w = Some (r, w')"
  then obtain r0 where "m w = Some (r0, w')"
    by (auto simp: swallow_def split: option.splits)
  with confinedD [OF assms]
  show "(\<exists>ext. calls w' = calls w @ ext \<and> list_all P ext)
      \<and> (\<forall>p. files w' p = files w p \<or> (\<exists>pic. files w' p = Some pic \<and> Q p pic))"
    by blast
qed

lemma confined_screenshot:
  assumes "P (Screenshot p full)" and "Q p (Shot full)"
  shows "confined P Q (screenshot e p full)"
  using assms by (auto simp: confined_def screenshot_def bind_prog_call write_file_def)

lemma confined_scroll_step:
  assumes "\<And>a. no_shot a \<Longrightarrow> P a"
  shows "confined P Q (scroll_step e d pos)"
  unfolding scroll_step_def
  by (intro confined_bind confined_call confined_evaluate assms) (simp_all add: no_shot_def)

lemma confined_scroll_loop:
  assumes "\<And>a. no_shot a \<Longrightarrow> P a"
  shows "confined P Q (scroll_loop e d vh pos th)"
proof (rule confinedI)
  have ss: "confined P Q (scroll_step e d pos)" for e d pos
    by (rule confined_scroll_step) (rule assms)
  fix w r w' assume run: "scroll_loop e d vh pos th w = Some (r, w')"
  have "(\<exists>ext. calls (snd (r, w')) = calls w @ ext \<and> list_all P ext)
        \<and> (\<forall>p. files (snd (r, w')) p = files w p
                 \<or> (\<exists>pic. files (snd (r, w')) p = Some pic \<and> Q p pic))"
  proof (rule scroll_loop.raw_induct [where P = "\<lambda>e d vh pos th w y.
        (\<exists>ext. calls (snd y) = calls w @ ext \<and> list_all P ext)
        \<and> (\<forall>p. files (snd y) p = files w p \<or> (\<exists>pic. files (snd y) p = Some pic \<and> Q p pic))",
        OF _ run])
    fix loop :: "env \<Rightarrow> rat \<Rightarrow> int \<Rightarrow> int \<Rightarrow> int \<Rightarrow> world \<Rightarrow> ((error + int \<times> int) \<times> world) option"
      and e d vh pos th w y
    assume IH: "\<And>e d vh pos th w y. loop e d vh pos th w = Some y \<Longrightarrow>
        (\<exists>ext. calls (snd y) = calls w @ ext \<and> list_all P ext)
        \<and> (\<forall>p. files (snd y) p = files w p \<or> (\<exists>pic. files (snd y) p = Some pic \<and> Q p pic))"
    assume step: "(if pos < th then
          (case scroll_step e d (pos + vh) w of
             None \<Rightarrow> None
           | Some (Inl x, w') \<Rightarrow> Some (Inl x, w')
           | Some (Inr t, w') \<Rightarrow> loop e d vh (pos + vh) t w')
        else Some (Inr (pos, th), w)) = Some y"
    show "(\<exists>ext. calls (snd y) = calls w @ ext \<and> list_all P ext)
        \<and> (\<forall>p. files (snd y) p = files w p \<or> (\<exists>pic. files (snd y) p = Some pic \<and> Q p pic))"
    proof (cases "pos < th")
      case False
      with step show ?thesis by auto
    next
      case True
      with step consider (stop) x where "scroll_step e d (pos + vh) w = Some (Inl x, snd y)"
        | (go) t w1 where "scroll_step e d (pos + vh) w = Some (Inr t, w1)"
                          "loop e d vh (pos + vh) t w1 = Some y"
        by (auto split: option.splits sum.splits)
      then show ?thesis
      proof cases
        case stop
        from confinedD [OF ss stop] show ?thesis by blast
      next
        case go
        from confinedD(1) [OF ss go(1)] obtain n1 where
          n1: "calls w1 = calls w @ n1" "list_all P n1" by blast
        from IH [OF go(2)] obtain n2 where
          n2: "calls (snd y) = calls w1 @ n2" "list_all P n2" by blast
        have c: "calls (snd y) = calls w @ (n1 @ n2) \<and> list_all P (n1 @ n2)"
          using n1 n2 by simp
        have "\<forall>p. files (snd y) p = files w p \<or> (\<exists>pic. files (snd y) p = Some pic \<and> Q p pic)"
        proof
          fix p
          have f2: "files (snd y) p = files w1 p \<or> (\<exists>pic. files (snd y) p = Some pic \<and> Q p pic)"
            using IH [OF go(2)] by blast
          from confinedD(2) [OF ss go(1), of p] f2
          show "files (snd y) p = files w p \<or> (\<exists>pic. files (snd y) p = Some pic \<and> Q p pic)"
            by auto
        qed
        with c show ?thesis by blast
      qed
    qed
  qed
  then show "(\<exists>ext. calls w' = calls w @ ext \<and> list_all P ext)
      \<and> (\<forall>p. files w' p = files w p \<or> (\<exists>pic. files w' p = Some pic \<and> Q p pic))"
    by simp
qed

lemma confined_if:
  "confined P Q m1 \<Longrightarrow> confined P Q m2 \<Longrightarrow> confined P Q (if c then m1 else m2)"
  by simp

lemma confined_open_browser:
  assumes "\<And>a. no_shot a \<Longrightarrow> P a"
  shows "confined P Q (open_browser e cfg)"
proof -
  have "P StartPlaywright" "P (LaunchChromium (headless cfg))"
    by (rule assms, simp add: no_shot_def)+
  then show ?thesis
    by (auto simp: confined_def open_browser_def bind_prog_call return_def split: if_splits)
qed

lemma confined_ensure_open:
  assumes "\<And>a. no_shot a \<Longrightarrow> P a"
  shows "confined P Q (\<lambda>w. if \<not> is_open w then open_browser e cfg w else return () w)"
proof (rule confinedI)
  fix w r w'
  assume "(if \<not> is_open w then open_browser e cfg w else return () w) = Some (r, w')"
  then have "open_browser e cfg w = Some (r, w') \<or> return () w = Some (r, w')"
    by (simp split: if_splits)
  with confinedD [OF confined_open_browser [of P Q e cfg], OF assms]
       confinedD [OF confined_return [of P Q "()"]]
  show "(\<exists>ext. calls w' = calls w @ ext \<and> list_all P ext)
      \<and> (\<forall>p. files w' p = files w p \<or> (\<exists>pic. files w' p = Some pic \<and> Q p pic))"
    by blast
qed

lemma confined_setup_page:
  assumes "\<And>a. no_shot a \<Longrightarrow> P a"
  shows "confined P Q (setup_page e cfg auto_adjust)"
  unfolding setup_page_def
  by (intro confined_bind confined_call confined_if confined_return confined_ensure_open assms)
     (simp_all add: no_shot_def)

lemma confined_adjust_viewport_to_page:
  assumes "\<And>a. no_shot a \<Longrightarrow> P a"
  shows "confined P Q (adjust_viewport_to_page e cfg)"
  unfolding adjust_viewport_to_page_def
  by (intro confined_bind confined_call confined_evaluate assms) (simp_all add: no_shot_def)

lemma confined_scroll_and_load:
  assumes "\<And>a. no_shot a \<Longrightarrow> P a"
  shows "confined P Q (scroll_and_load e cfg)"
  unfolding scroll_and_load_def
  by (intro confined_bind confined_call confined_evaluate confined_return confined_scroll_loop assms)
     (simp_all add: no_shot_def)

lemma no_shot_shot_is: "no_shot a \<Longrightarrow> shot_is out full a"
  by (cases a) (simp_all add: no_shot_def shot_is_def)

lemma confined_capture_steps:
  "confined (shot_is out (\<not> use)) (\<lambda>p pic. p = out \<and> pic = Shot (\<not> use))
     (capture_steps e cfg url out use)"
proof -
  have a: "confined (shot_is out full) Q (adjust_viewport_to_page e cfg)" for full Q
    by (rule confined_adjust_viewport_to_page) (rule no_shot_shot_is)
  have b: "confined (shot_is out full) Q (scroll_and_load e cfg)" for full Q
    by (rule confined_scroll_and_load) (rule no_shot_shot_is)
  show ?thesis
  proof (cases use)
    case True
    then show ?thesis
      unfolding capture_steps_def
      by (simp only: if_True)
         (intro confined_bind confined_call confined_screenshot a, simp_all add: shot_is_def)
  next
    case False
    then show ?thesis
      unfolding capture_steps_def
      by (simp only: if_False)
         (intro confined_bind confined_call confined_screenshot b, simp_all add: shot_is_def)
  qed
qed

lemma capture_log:
  assumes run: "capture e cfg url output_path auto_adjust w = Some (r, w')"
    and use: "use = (case auto_adjust of Some b \<Rightarrow> b | None \<Rightarrow> viewport_auto_adjust cfg)"
  shows "\<exists>ext. calls w' = calls w @ ext \<and> list_all (shot_is (output_file e output_path) (\<not> use)) ext"
proof (cases "is_valid_url (netloc_rejected e) url")
  case False
  with run have "calls w' = calls w"
    by (auto simp: capture_def create_blank_image_def write_file_def)
  then show ?thesis by simp
next
  case True
  let ?out = "output_file e output_path"
  let ?P = "shot_is ?out (\<not> use)"
  have sp: "confined ?P never (setup_page e cfg use)"
    by (rule confined_setup_page) (rule no_shot_shot_is)
  from run True use consider
      (early) x w1 where "setup_page e cfg use w = Some (Inl x, w1)"
        "w' = create_blank_image ?out 800 600 w1"
    | (late) w1 x w2 where "setup_page e cfg use w = Some (Inr (), w1)"
        "capture_steps e cfg url ?out use w1 = Some (x, w2)"
        "calls w' = calls w2 @ [ClosePage]"
    by (auto simp: capture_def Let_def close_page_def create_blank_image_def write_file_def
             split: option.splits sum.splits)
  then show ?thesis
  proof cases
    case early
    from confinedD(1) [OF sp early(1)] early(2) show ?thesis
      by (simp add: create_blank_image_def write_file_def)
  next
    case late
    from confinedD(1) [OF sp late(1)] obtain n1 where
      n1: "calls w1 = calls w @ n1" "list_all ?P n1" by blast
    from confinedD(1) [OF confined_capture_steps late(2)] obtain n2 where
      n2: "calls w2 = calls w1 @ n2" "list_all ?P n2" by blast
    have "calls w' = calls w @ (n1 @ n2 @ [ClosePage]) \<and> list_all ?P (n1 @ n2 @ [ClosePage])"
      using n1 n2 late(3) by (simp add: shot_is_def)
    then show ?thesis by blast
  qed
qed

lemma bind_prog_InrE:
  assumes "bind_prog m f w = Some (Inr y, w')"
  obtains x w1 where "m w = Some (Inr x, w1)" and "f x w1 = Some (Inr y, w')"
  using assms by (auto simp: bind_prog_def split: option.splits sum.splits)

lemma confined_never_files:
  assumes "confined P never m" and "m w = Some (r, w')"
  shows "files w' = files w"
proof
  fix p from confinedD(2) [OF assms, of p] show "files w' p = files w p"
    by (simp add: never_def)
qed

lemma setup_page_Inr:
  assumes "setup_page e cfg auto_adjust w = Some (Inr u, w1)"
  shows "w1 = w\<lparr>is_open := True, calls := calls w @ setup_calls cfg auto_adjust (is_open w)\<rparr>"
  using assms
  by (auto simp: setup_page_def open_browser_def bind_prog_call bind_prog_def call_result
                 return_def setup_calls_def
           split: if_splits)

lemma adjust_viewport_to_page_Inr:
  assumes "adjust_viewport_to_page e cfg w = Some (Inr u, w1)"
  shows "w1 = w\<lparr>calls := calls w @
           [EvalNumber ''document.documentElement.scrollWidth'',
            EvalNumber ''document.documentElement.scrollHeight'',
            SetViewportSize
              (min (js_value e (calls w) ''document.documentElement.scrollWidth'')
                   (max_viewport_width cfg))
              (min (js_value e (calls w @ [EvalNumber ''document.documentElement.scrollWidth''])
                             ''document.documentElement.scrollHeight'')
                   (max_viewport_height cfg)),
            Reload, WaitForLoadState]\<rparr>"
  using assms
  by (auto simp: adjust_viewport_to_page_def bind_prog_call bind_prog_evaluate call_result
           split: if_splits)

lemma capture_steps_auto_Inr:
  assumes "capture_steps e cfg url out True w = Some (Inr u, w2)"
  shows "w2 = w\<lparr>calls := calls w @
           [Goto url, WaitForLoadState,
            EvalNumber ''document.documentElement.scrollWidth'',
            EvalNumber ''document.documentElement.scrollHeight'',
            SetViewportSize
              (min (js_value e (calls w @ [Goto url, WaitForLoadState])
                             ''document.documentElement.scrollWidth'')
                   (max_viewport_width cfg))
              (min (js_value e (calls w @ [Goto url, WaitForLoadState,
                                           EvalNumber ''document.documentElement.scrollWidth''])
                             ''document.documentElement.scrollHeight'')
                   (max_viewport_height cfg)),
            Reload, WaitForLoadState, WaitForLoadState, WaitForTimeout (final_wait cfg),
            Screenshot out False],
          files := (files w)(out \<mapsto> Shot False)\<rparr>"
proof -
  let ?wa = "w\<lparr>calls := calls w @ [Goto url, WaitForLoadState]\<rparr>"
  from assms have
    rest: "bind_prog (adjust_viewport_to_page e cfg) (\<lambda>_.
             bind_prog (call e WaitForLoadState) (\<lambda>_.
             bind_prog (call e (WaitForTimeout (final_wait cfg))) (\<lambda>_.
             screenshot e out False))) ?wa = Some (Inr u, w2)"
    by (simp add: capture_steps_def bind_prog_call split: if_splits)
  then obtain v wb where
    adj: "adjust_viewport_to_page e cfg ?wa = Some (Inr v, wb)" and
    fin: "bind_prog (call e WaitForLoadState) (\<lambda>_.
             bind_prog (call e (WaitForTimeout (final_wait cfg))) (\<lambda>_.
             screenshot e out False)) wb = Some (Inr u, w2)"
    by (rule bind_prog_InrE)
  from fin have "w2 = wb\<lparr>calls := calls wb @ [WaitForLoadState, WaitForTimeout (final_wait cfg),
                                               Screenshot out False],
                          files := (files wb)(out \<mapsto> Shot False)\<rparr>"
    by (simp add: bind_prog_call screenshot_def write_file_def split: if_splits)
  with adjust_viewport_to_page_Inr [OF adj] show ?thesis by simp
qed

lemma capture_steps_scroll_Inr:
  assumes "capture_steps e cfg url out False w = Some (Inr u, w2)"
  shows "\<exists>ext. calls w2 = calls w @ ext @ [Screenshot out True] \<and> list_all no_shot ext
             \<and> files w2 = (files w)(out \<mapsto> Shot True)"
proof -
  let ?wa = "w\<lparr>calls := calls w @ [Goto url, WaitForLoadState]\<rparr>"
  from assms have
    rest: "bind_prog (scroll_and_load e cfg) (\<lambda>_.
             bind_prog (call e WaitForLoadState) (\<lambda>_.
             bind_prog (call e (WaitForTimeout (final_wait cfg))) (\<lambda>_.
             screenshot e out True))) ?wa = Some (Inr u, w2)"
    by (simp add: capture_steps_def bind_prog_call split: if_splits)
  then obtain v wb where
    scr: "scroll_and_load e cfg ?wa = Some (Inr v, wb)" and
    fin: "bind_prog (call e WaitForLoadState) (\<lambda>_.
             bind_prog (call e (WaitForTimeout (final_wait cfg))) (\<lambda>_.
             screenshot e out True)) wb = Some (Inr u, w2)"
    by (rule bind_prog_InrE)
  have conf: "confined no_shot never (scroll_and_load e cfg)"
    by (rule confined_scroll_and_load)
  from confinedD(1) [OF conf scr] obtain ext where
    ext: "calls wb = calls ?wa @ ext" "list_all no_shot ext" by blast
  have fb: "files wb = files w"
    using confined_never_files [OF conf scr] by simp
  from fin have w2: "w2 = wb\<lparr>calls := calls wb @ [WaitForLoadState, WaitForTimeout (final_wait cfg),
                                               Screenshot out True],
                          files := (files wb)(out \<mapsto> Shot True)\<rparr>"
    by (simp add: bind_prog_call screenshot_def write_file_def split: if_splits)
  have "calls w2 = calls w @ ([Goto url, WaitForLoadState] @ ext
                     @ [WaitForLoadState, WaitForTimeout (final_wait cfg)]) @ [Screenshot out True]"
    using w2 ext by simp
  moreover have "list_all no_shot ([Goto url, WaitForLoadState] @ ext
                     @ [WaitForLoadState, WaitForTimeout (final_wait cfg)])"
    using ext by (simp add: no_shot_def)
  moreover have "files w2 = (files w)(out \<mapsto> Shot True)" using w2 fb by simp
  ultimately show ?thesis by blast
qed

subsection \<open>\<open>capture\<close>: the mode of the screenshot, and the fallback\<close>

lemmas run_defs = capture_def capture_steps_def setup_page_def open_browser_def
  adjust_viewport_to_page_def scroll_and_load_def scroll_loop.simps scroll_step_def
  screenshot_def write_file_def create_blank_image_def close_page_def output_file_def
  bind_prog_def call_def evaluate_def return_def raise_def
  default_config_def fresh_world_def Let_def

text \<open>
  Claim C2. In every run of \<open>capture\<close>, each screenshot call it issues names the output
  path and has \<open>full_page\<close> exactly when the resolved mode is not auto-adjust. A successful
  run in auto-adjust mode issues, after the set-up of the page, the navigation and the
  wait: the two measurements, the viewport of \<open>min\<close> of the measured width and
  \<open>max_viewport_width\<close> by \<open>min\<close> of the measured height and \<open>max_viewport_height\<close>, the
  reload, the waits, and the viewport screenshot. A successful run without auto-adjust ends
  with the full-page screenshot.
\<close>

theorem capture_mode_decides_screenshot:
  assumes run: "capture e cfg url output_path auto_adjust w = Some (r, w')"
    and use: "use = (case auto_adjust of Some b \<Rightarrow> b | None \<Rightarrow> viewport_auto_adjust cfg)"
    and out: "out = output_file e output_path"
    and h: "h = calls w @ setup_calls cfg True (is_open w) @ [Goto url, WaitForLoadState]"
  shows "(\<exists>ext. calls w' = calls w @ ext \<and> list_all (shot_is out (\<not> use)) ext)
       \<and> (use \<and> r \<longrightarrow>
            calls w' = h @
              [EvalNumber ''document.documentElement.scrollWidth'',
               EvalNumber ''document.documentElement.scrollHeight'',
               SetViewportSize
                 (min (js_value e h ''document.documentElement.scrollWidth'')
                      (max_viewport_width cfg))
                 (min (js_value e (h @ [EvalNumber ''document.documentElement.scrollWidth''])
                                ''document.documentElement.scrollHeight'')
                      (max_viewport_height cfg)),
               Reload, WaitForLoadState, WaitForLoadState, WaitForTimeout (final_wait cfg),
               Screenshot out False, ClosePage]
            \<and> files w' = (files w)(out \<mapsto> Shot False))
       \<and> (\<not> use \<and> r \<longrightarrow>
            (\<exists>ext. calls w' = calls w @ ext @ [Screenshot out True, ClosePage]
                   \<and> list_all no_shot ext)
            \<and> files w' = (files w)(out \<mapsto> Shot True))"
proof (rule conjI [OF _ conjI]; (rule impI)?)
  show "\<exists>ext. calls w' = calls w @ ext \<and> list_all (shot_is out (\<not> use)) ext"
    using capture_log [OF run use] out by simp
next
  assume "use \<and> r"
  then have u: use and r: r by simp_all
  from run r u use out obtain w1 w2 where
    sp: "setup_page e cfg True w = Some (Inr (), w1)" and
    st: "capture_steps e cfg url out True w1 = Some (Inr (), w2)" and
    w': "w' = close_page w2"
    by (auto simp: capture_def Let_def split: if_splits option.splits sum.splits)
  from setup_page_Inr [OF sp] capture_steps_auto_Inr [OF st] w' h
  show "calls w' = h @
              [EvalNumber ''document.documentElement.scrollWidth'',
               EvalNumber ''document.documentElement.scrollHeight'',
               SetViewportSize
                 (min (js_value e h ''document.documentElement.scrollWidth'')
                      (max_viewport_width cfg))
                 (min (js_value e (h @ [EvalNumber ''document.documentElement.scrollWidth''])
                                ''document.documentElement.scrollHeight'')
                      (max_viewport_height cfg)),
               Reload, WaitForLoadState, WaitForLoadState, WaitForTimeout (final_wait cfg),
               Screenshot out False, ClosePage]
            \<and> files w' = (files w)(out \<mapsto> Shot False)"
    by (simp add: close_page_def)
next
  assume "\<not> use \<and> r"
  then have u: "\<not> use" and r: r by simp_all
  from run r u use out obtain w1 w2 where
    sp: "setup_page e cfg False w = Some (Inr (), w1)" and
    st: "capture_steps e cfg url out False w1 = Some (Inr (), w2)" and
    w': "w' = close_page w2"
    by (auto simp: capture_def Let_def split: if_splits option.splits sum.splits)
  from capture_steps_scroll_Inr [OF st] obtain ext where
    ext: "calls w2 = calls w1 @ ext @ [Screenshot out True]" "list_all no_shot ext"
         "files w2 = (files w1)(out \<mapsto> Shot True)" by blast
  let ?pre = "setup_calls cfg False (is_open w) @ ext"
  have "calls w' = calls w @ ?pre @ [Screenshot out True, ClosePage]"
    using setup_page_Inr [OF sp] ext(1) w' by (simp add: close_page_def)
  moreover have "list_all no_shot ?pre"
    using ext(2) by (simp add: setup_calls_def no_shot_def)
  moreover have "files w' = (files w)(out \<mapsto> Shot True)"
    using setup_page_Inr [OF sp] ext(3) w' by (simp add: close_page_def)
  ultimately show "(\<exists>ext. calls w' = calls w @ ext @ [Screenshot out True, ClosePage]
                   \<and> list_all no_shot ext)
            \<and> files w' = (files w)(out \<mapsto> Shot True)"
    by blast
qed

theorem capture_mode_decides_screenshot_witness:
  "capture calm_env default_config ''https://example.org/'' (Some ''o.png'') (Some True) fresh_world =
     Some (True,
       \<lparr>is_open = True,
        calls =
          [StartPlaywright, LaunchChromium True, NewPage None None,
           SetDefaultNavigationTimeout 60000, SetDefaultTimeout 60000,
           Goto ''https://example.org/'', WaitForLoadState,
           EvalNumber ''document.documentElement.scrollWidth'',
           EvalNumber ''document.documentElement.scrollHeight'',
           SetViewportSize 7680 2500, Reload, WaitForLoadState,
           WaitForLoadState, WaitForTimeout 5000,
           Screenshot (File ''o.png'') False, ClosePage],
        files = [File ''o.png'' \<mapsto> Shot False]\<rparr>)
   \<and> fst (the (capture calm_env default_config ''https://example.org/'' (Some ''o.png'') None
                fresh_world))
   \<and> files (snd (the (capture calm_env default_config ''https://example.org/'' (Some ''o.png'')
                None fresh_world))) (File ''o.png'') = Some (Shot True)"
proof -
  let ?url = "''https://example.org/''"
  have v: "is_valid_url (netloc_rejected calm_env) ?url"
    by (simp add: url_defs calm_env_def)
  have some: "\<exists>w'. capture calm_env default_config ?url (Some ''o.png'') (Some True) fresh_world
                 = Some (True, w') \<and> is_open w'"
    using v by (simp add: run_defs calm_env_def)
  then obtain w' where
    run: "capture calm_env default_config ?url (Some ''o.png'') (Some True) fresh_world
            = Some (True, w')" and op: "is_open w'" by blast
  from capture_mode_decides_screenshot [OF run refl refl refl]
  have a: "calls w' =
          [StartPlaywright, LaunchChromium True, NewPage None None,
           SetDefaultNavigationTimeout 60000, SetDefaultTimeout 60000,
           Goto ''https://example.org/'', WaitForLoadState,
           EvalNumber ''document.documentElement.scrollWidth'',
           EvalNumber ''document.documentElement.scrollHeight'',
           SetViewportSize 7680 2500, Reload, WaitForLoadState,
           WaitForLoadState, WaitForTimeout 5000,
           Screenshot (File ''o.png'') False, ClosePage]"
    and b: "files w' = [File ''o.png'' \<mapsto> Shot False]"
    by (simp_all add: calm_env_def default_config_def fresh_world_def setup_calls_def
                      output_file_def)
  have first: "capture calm_env default_config ?url (Some ''o.png'') (Some True) fresh_world =
     Some (True, \<lparr>is_open = True, calls = calls w', files = files w'\<rparr>)"
    using run op by simp
  have "\<exists>w2. capture calm_env default_config ?url (Some ''o.png'') None fresh_world
                 = Some (True, w2)"
    using v by (simp add: run_defs calm_env_def)
  then obtain w2 where
    run2: "capture calm_env default_config ?url (Some ''o.png'') None fresh_world = Some (True, w2)"
    by blast
  from capture_mode_decides_screenshot [OF run2 refl refl refl]
  have c: "files w2 (File ''o.png'') = Some (Shot True)"
    by (simp add: default_config_def fresh_world_def output_file_def)
  from first a b run2 c show ?thesis by simp
qed



subsection \<open>Popup dismissal never raises\<close>

lemma chatterD:
  assumes "chatter P m"
  obtains r ext where "m w = Some (r, w\<lparr>calls := calls w @ ext\<rparr>)" and "list_all P ext"
  using assms unfolding chatter_def by blast

lemma chatter_return: "chatter P (return x)"
  unfolding chatter_def
proof
  fix w :: world
  have "return x w = Some (Inr x, w\<lparr>calls := calls w @ []\<rparr>) \<and> list_all P []"
    by (simp add: return_def)
  then show "\<exists>r ext. return x w = Some (r, w\<lparr>calls := calls w @ ext\<rparr>) \<and> list_all P ext"
    by blast
qed

lemma chatter_call: "P a \<Longrightarrow> chatter P (call e a)"
  unfolding chatter_def
proof
  fix w :: world assume "P a"
  then have "call e a w = Some (if fails e (calls w) a then Inl (DriverError a) else Inr (),
                               w\<lparr>calls := calls w @ [a]\<rparr>) \<and> list_all P [a]"
    by (simp add: call_result)
  then show "\<exists>r ext. call e a w = Some (r, w\<lparr>calls := calls w @ ext\<rparr>) \<and> list_all P ext"
    by blast
qed

lemma chatter_bind:
  assumes m: "chatter P m" and f: "\<And>x. chatter P (f x)"
  shows "chatter P (bind_prog m f)"
  unfolding chatter_def
proof
  fix w :: world
  from m obtain r e1 where
    r1: "m w = Some (r, w\<lparr>calls := calls w @ e1\<rparr>)" and p1: "list_all P e1"
    by (rule chatterD)
  show "\<exists>r ext. bind_prog m f w = Some (r, w\<lparr>calls := calls w @ ext\<rparr>) \<and> list_all P ext"
  proof (cases r)
    case (Inl x)
    with r1 have "bind_prog m f w = Some (Inl x, w\<lparr>calls := calls w @ e1\<rparr>)"
      by (simp add: bind_prog_def)
    with p1 show ?thesis by blast
  next
    case (Inr v)
    let ?w1 = "w\<lparr>calls := calls w @ e1\<rparr>"
    from f [of v] obtain r2 e2 where
      r2: "f v ?w1 = Some (r2, ?w1\<lparr>calls := calls ?w1 @ e2\<rparr>)" and p2: "list_all P e2"
      by (rule chatterD)
    from r1 Inr r2 have "bind_prog m f w = Some (r2, w\<lparr>calls := calls w @ (e1 @ e2)\<rparr>)"
      by (simp add: bind_prog_def)
    moreover have "list_all P (e1 @ e2)" using p1 p2 by simp
    ultimately show ?thesis by blast
  qed
qed

lemma chatter_swallow:
  assumes "chatter P m"
  shows "\<exists>ext. swallow m w = Some (Inr (), w\<lparr>calls := calls w @ ext\<rparr>) \<and> list_all P ext"
proof -
  from assms obtain r ext where
    "m w = Some (r, w\<lparr>calls := calls w @ ext\<rparr>)" "list_all P ext" by (rule chatterD)
  then have "swallow m w = Some (Inr (), w\<lparr>calls := calls w @ ext\<rparr>) \<and> list_all P ext"
    by (simp add: swallow_def)
  then show ?thesis by blast
qed

lemma chatter_swallow': "chatter P m \<Longrightarrow> chatter P (swallow m)"
  unfolding chatter_def [of P "swallow m"] using chatter_swallow by blast

lemma chatter_element_is_visible: "P (IsVisible sel i) \<Longrightarrow> chatter P (element_is_visible e sel i)"
  unfolding chatter_def
proof
  fix w :: world assume "P (IsVisible sel i)"
  then have "element_is_visible e sel i w =
               Some (if fails e (calls w) (IsVisible sel i) then Inl (DriverError (IsVisible sel i))
                     else Inr (visible e (calls w) sel i),
                     w\<lparr>calls := calls w @ [IsVisible sel i]\<rparr>) \<and> list_all P [IsVisible sel i]"
    by (simp add: element_is_visible_def bind_prog_call return_def)
  then show "\<exists>r ext. element_is_visible e sel i w = Some (r, w\<lparr>calls := calls w @ ext\<rparr>)
                     \<and> list_all P ext"
    by blast
qed

lemma chatter_query_selector_all:
  "P (QuerySelectorAll sel) \<Longrightarrow> chatter P (query_selector_all e sel)"
  unfolding chatter_def
proof
  fix w :: world assume "P (QuerySelectorAll sel)"
  then have "query_selector_all e sel w =
               Some (if fails e (calls w) (QuerySelectorAll sel)
                     then Inl (DriverError (QuerySelectorAll sel))
                     else Inr (n_matches e (calls w) sel),
                     w\<lparr>calls := calls w @ [QuerySelectorAll sel]\<rparr>)
             \<and> list_all P [QuerySelectorAll sel]"
    by (simp add: query_selector_all_def bind_prog_call return_def)
  then show "\<exists>r ext. query_selector_all e sel w = Some (r, w\<lparr>calls := calls w @ ext\<rparr>)
                     \<and> list_all P ext"
    by blast
qed

lemma popup_call_simps [simp]:
  "popup_call OnDialog" "popup_call (QuerySelectorAll sel)" "popup_call (IsVisible sel i)"
  "popup_call (Click sel i)" "popup_call (Sleep PopupPause d)"
  by (simp_all add: popup_call_def)

lemma chatter_click_visible: "chatter popup_call (click_visible e sel elements)"
proof (induction elements)
  case Nil
  show ?case by (simp add: chatter_return)
next
  case (Cons i elements)
  have "chatter popup_call
          (if v then bind_prog (call e (Click sel i)) (\<lambda>_. call e (Sleep PopupPause (3 / 10)))
           else return ())" for v
    by (cases v) (auto intro!: chatter_bind chatter_call chatter_return)
  with Cons show ?case
    by (auto intro!: chatter_bind chatter_element_is_visible)
qed

lemma chatter_dismiss_selectors: "chatter popup_call (dismiss_selectors e selectors)"
proof (induction selectors)
  case Nil
  show ?case by (simp add: chatter_return)
next
  case (Cons selector selectors)
  then show ?case
    by (auto intro!: chatter_bind chatter_swallow' chatter_query_selector_all chatter_click_visible)
qed

lemma dismiss_popups_result:
  "\<exists>ext. dismiss_popups e w = Some (Inr (), w\<lparr>calls := calls w @ ext\<rparr>) \<and> list_all popup_call ext"
  unfolding dismiss_popups_def
  by (rule chatter_swallow)
     (auto intro!: chatter_bind chatter_call chatter_dismiss_selectors)


subsection \<open>\<open>capture_multiple_pages\<close>: failures and the empty document\<close>





lemma confined_measure_page:
  assumes "\<And>a. no_shot a \<Longrightarrow> P a"
  shows "confined P Q (measure_page e cfg url)"
  unfolding measure_page_def
  by (intro confined_bind confined_call confined_evaluate confined_return
            confined_scroll_and_load assms)
     (simp_all add: no_shot_def)



lemma pages_from_zero:
  assumes "0 < vh"
  shows "pages_from e cfg dir 0 vh w = Some (Inr (), w)"
proof -
  from assms have "(0 + vh - 1) div vh = 0" by simp
  with assms show ?thesis
    by (simp add: pages_from_def floor_div_def py_range_def return_def)
qed

text \<open>
  Claim C10. For a valid URL, when the directory and the page are set up and the
  measurements give a document height of zero in a viewport of positive height, the page
  count is zero, \<open>capture_multiple_pages\<close> returns true, no file is written and no
  screenshot call is issued.
\<close>

theorem zero_height_no_pages:
  assumes valid: "is_valid_url (netloc_rejected e) url"
    and dir: "dir = output_directory e output_dir"
    and mk: "\<not> fails e (calls w) (Mkdir dir)"
    and sp: "setup_page e cfg False (w\<lparr>calls := calls w @ [Mkdir dir]\<rparr>) = Some (Inr (), w1)"
    and meas: "measure_page e cfg url w1 = Some (Inr (0, vh), w2)"
    and vh: "0 < vh"
  shows "capture_multiple_pages e cfg url output_dir w = Some (True, close_page w2)
       \<and> (0 + vh - 1) div vh = 0
       \<and> files (close_page w2) = files w
       \<and> (\<exists>ext. calls (close_page w2) = calls w @ ext \<and> list_all no_shot ext)"
proof -
  let ?w0 = "w\<lparr>calls := calls w @ [Mkdir dir]\<rparr>"
  have ms: "multi_steps e cfg url dir w1 = Some (Inr (), w2)"
    using meas pages_from_zero [OF vh] by (simp add: multi_steps_def bind_prog_def)
  have run: "capture_multiple_pages e cfg url output_dir w = Some (True, close_page w2)"
    using valid dir mk sp ms by (simp add: capture_multiple_pages_def Let_def call_result)
  have c1: "confined no_shot never (setup_page e cfg False)"
    by (rule confined_setup_page)
  have c2: "confined no_shot never (measure_page e cfg url)"
    by (rule confined_measure_page)
  from confinedD(1) [OF c1 sp] obtain n1 where
    n1: "calls w1 = calls ?w0 @ n1" "list_all no_shot n1" by blast
  from confinedD(1) [OF c2 meas] obtain n2 where
    n2: "calls w2 = calls w1 @ n2" "list_all no_shot n2" by blast
  have "calls (close_page w2) = calls w @ ([Mkdir dir] @ n1 @ n2 @ [ClosePage])"
    using n1 n2 by (simp add: close_page_def)
  moreover have "list_all no_shot ([Mkdir dir] @ n1 @ n2 @ [ClosePage])"
    using n1 n2 by (simp add: no_shot_def)
  moreover have "files (close_page w2) = files w"
    using confined_never_files [OF c1 sp] confined_never_files [OF c2 meas]
    by (simp add: close_page_def)
  moreover have "(0 + vh - 1) div vh = 0" using vh by simp
  ultimately show ?thesis using run by blast
qed

lemma small_ranges: "[0..<2] = [0, 1]" "py_range 0 = []" "py_range 3 = [0, 1, 2]"
  by code_simp+

lemmas multi_defs = capture_multiple_pages_def multi_steps_def measure_page_def pages_from_def
  floor_div_def small_ranges capture_page_def dismiss_popups_def swallow_def
  query_selector_all_def element_is_visible_def popup_selectors_def output_directory_def

theorem zero_height_no_pages_witness:
  "is_valid_url (netloc_rejected flat_env) ''https://example.org/''
   \<and> (\<exists>w'. capture_multiple_pages flat_env default_config ''https://example.org/'' (Some ''out'')
              fresh_world = Some (True, w')
            \<and> files w' = Map.empty
            \<and> list_all no_shot (calls w'))"
proof -
  let ?url = "''https://example.org/''"
  have v: "is_valid_url (netloc_rejected flat_env) ?url"
    by (simp add: url_defs calm_env_def flat_env_def)
  have d: "''out'' = output_directory flat_env (Some ''out'')"
    by (simp add: output_directory_def)
  have mk: "\<not> fails flat_env (calls fresh_world) (Mkdir ''out'')"
    by (simp add: calm_env_def flat_env_def)
  have "\<exists>w1 w2. setup_page flat_env default_config False
                   (fresh_world\<lparr>calls := calls fresh_world @ [Mkdir ''out'']\<rparr>) = Some (Inr (), w1)
               \<and> measure_page flat_env default_config ?url w1 = Some (Inr (0, 600), w2)"
    by (simp add: run_defs multi_defs calm_env_def flat_env_def)
  then obtain w1 w2 where
    sp: "setup_page flat_env default_config False
           (fresh_world\<lparr>calls := calls fresh_world @ [Mkdir ''out'']\<rparr>) = Some (Inr (), w1)" and
    ms: "measure_page flat_env default_config ?url w1 = Some (Inr (0, 600), w2)"
    by blast
  from zero_height_no_pages [OF v d mk sp ms]
  have "capture_multiple_pages flat_env default_config ?url (Some ''out'') fresh_world
          = Some (True, close_page w2)"
    and "files (close_page w2) = Map.empty"
    and "list_all no_shot (calls (close_page w2))"
    by (auto simp: fresh_world_def)
  with v show ?thesis by blast
qed


subsection \<open>\<open>capture_multiple_pages\<close>: page count, files and pacing\<close>

lemma num_pages_ceiling:
  assumes "0 < vh"
  shows "(th + vh - 1) div vh = \<lceil>rat_of_int th / rat_of_int vh\<rceil>"
proof -
  define z where "z = (th + vh - 1) div vh"
  define m where "m = (th + vh - 1) mod vh"
  have c: "th + vh - 1 = z * vh + m"
    by (simp add: z_def m_def)
  have m0: "0 \<le> m" and m1: "m < vh"
    using assms by (simp_all add: m_def)
  have zb: "(z - 1) * vh = z * vh - vh"
    by (simp add: left_diff_distrib)
  have le: "th \<le> z * vh" using c m1 by linarith
  have gt: "(z - 1) * vh < th" using c m0 zb by linarith
  have pos: "(0::rat) < rat_of_int vh" using assms by simp
  have "rat_of_int th \<le> rat_of_int (z * vh)" using le by (simp only: of_int_le_iff)
  then have up: "rat_of_int th / rat_of_int vh \<le> rat_of_int z"
    using pos by (simp add: pos_divide_le_eq)
  have "rat_of_int ((z - 1) * vh) < rat_of_int th" using gt by (simp only: of_int_less_iff)
  then have lo: "rat_of_int z - 1 < rat_of_int th / rat_of_int vh"
    using pos by (simp add: pos_less_divide_eq)
  from lo up have "\<lceil>rat_of_int th / rat_of_int vh\<rceil> = z"
    by (rule ceiling_unique)
  then show ?thesis by (simp add: z_def)
qed

lemma steady_append: "steady e base \<Longrightarrow> steady e (base @ h)"
  by (simp add: steady_def)

lemma steady_now: "steady e base \<Longrightarrow> \<not> popup_call a \<Longrightarrow> \<not> fails e base a"
  unfolding steady_def by (metis append_Nil2)

lemma steady_later: "steady e base \<Longrightarrow> \<not> popup_call a \<Longrightarrow> \<not> fails e (base @ h) a"
  unfolding steady_def by blast

lemma not_popup_call [simp]:
  "\<not> popup_call (ScrollTo y)" "\<not> popup_call WaitForLoadState" "\<not> popup_call (WaitForTimeout t)"
  "\<not> popup_call (Screenshot p f)" "\<not> popup_call (Sleep PagePause d)"
  by (simp_all add: popup_call_def)

lemma popup_not_pacing: "popup_call a \<Longrightarrow> \<not> pacing_or_shot a"
  by (cases a) (simp_all add: popup_call_def pacing_or_shot_def page_pause_def no_shot_def)

lemma filter_popup_calls: "list_all popup_call ext \<Longrightarrow> filter pacing_or_shot ext = []"
  by (induction ext) (simp_all add: popup_not_pacing)

lemma pacing_or_shot_simps [simp]:
  "pacing_or_shot (Sleep PagePause d)" "pacing_or_shot (Screenshot p f)"
  "\<not> pacing_or_shot (ScrollTo y)" "\<not> pacing_or_shot WaitForLoadState"
  "\<not> pacing_or_shot (WaitForTimeout t)" "\<not> pacing_or_shot ClosePage"
  by (simp_all add: pacing_or_shot_def page_pause_def no_shot_def)

lemma capture_page_steady:
  assumes st: "steady e (calls w)"
  shows "\<exists>ext. capture_page e cfg dir vh k w =
                 Some (Inr (), w\<lparr>calls := calls w @ ext,
                                 files := (files w)(PageIn dir (k + 1) \<mapsto> Shot False)\<rparr>)
               \<and> filter pacing_or_shot ext =
                   (if k > 0 then [Sleep PagePause (page_delay cfg)] else [])
                   @ [Screenshot (PageIn dir (k + 1)) False]"
proof -
  let ?pace = "if k > 0 then [Sleep PagePause (page_delay cfg)] else []"
  let ?pre = "?pace @ [ScrollTo (k * vh), WaitForLoadState]"
  let ?wa = "w\<lparr>calls := calls w @ ?pre\<rparr>"
  let ?rest = "\<lambda>_::unit. bind_prog (call e (WaitForTimeout (final_wait cfg))) (\<lambda>_.
                 screenshot e (PageIn dir (k + 1)) False)"
  note nf = steady_now [OF st] steady_later [OF st]
  have head: "capture_page e cfg dir vh k w = bind_prog (dismiss_popups e) ?rest ?wa"
    by (simp add: capture_page_def bind_prog_call nf)
  from dismiss_popups_result [of e ?wa] obtain pops where
    dp: "dismiss_popups e ?wa = Some (Inr (), ?wa\<lparr>calls := calls ?wa @ pops\<rparr>)" and
    pp: "list_all popup_call pops" by blast
  let ?wb = "?wa\<lparr>calls := calls ?wa @ pops\<rparr>"
  have cb: "calls ?wb = calls w @ (?pre @ pops)" by simp
  have tail: "?rest () ?wb =
      Some (Inr (), w\<lparr>calls := calls w @ (?pre @ pops @ [WaitForTimeout (final_wait cfg),
                                           Screenshot (PageIn dir (k + 1)) False]),
                      files := (files w)(PageIn dir (k + 1) \<mapsto> Shot False)\<rparr>)"
    by (simp add: bind_prog_call screenshot_def write_file_def nf)
  have "capture_page e cfg dir vh k w =
      Some (Inr (), w\<lparr>calls := calls w @ (?pre @ pops @ [WaitForTimeout (final_wait cfg),
                                           Screenshot (PageIn dir (k + 1)) False]),
                      files := (files w)(PageIn dir (k + 1) \<mapsto> Shot False)\<rparr>)"
    using head dp tail by (simp add: bind_prog_def)
  moreover have "filter pacing_or_shot (?pre @ pops @ [WaitForTimeout (final_wait cfg),
                                           Screenshot (PageIn dir (k + 1)) False])
                 = ?pace @ [Screenshot (PageIn dir (k + 1)) False]"
    using filter_popup_calls [OF pp] by simp
  ultimately show ?thesis by blast
qed

lemma capture_pages_steady:
  assumes "steady e (calls w)"
  shows "\<exists>ext. capture_pages e cfg dir vh ks w =
                 Some (Inr (), w\<lparr>calls := calls w @ ext,
                                 files := (\<lambda>p. if p \<in> (\<lambda>k. PageIn dir (k + 1)) ` set ks
                                              then Some (Shot False) else files w p)\<rparr>)
               \<and> filter pacing_or_shot ext = page_trace (page_delay cfg) dir ks"
  using assms
proof (induction ks arbitrary: w)
  case Nil
  have "capture_pages e cfg dir vh [] w = Some (Inr (), w\<lparr>calls := calls w @ [],
          files := (\<lambda>p. if p \<in> (\<lambda>k. PageIn dir (k + 1)) ` set [] then Some (Shot False)
                        else files w p)\<rparr>)"
    by (simp add: return_def)
  moreover have "filter pacing_or_shot [] = page_trace (page_delay cfg) dir []"
    by (simp add: page_trace_def)
  ultimately show ?case by blast
next
  case (Cons k ks)
  from capture_page_steady [OF Cons.prems, of cfg dir vh k] obtain e1 where
    one: "capture_page e cfg dir vh k w =
            Some (Inr (), w\<lparr>calls := calls w @ e1,
                            files := (files w)(PageIn dir (k + 1) \<mapsto> Shot False)\<rparr>)" and
    f1: "filter pacing_or_shot e1 =
           (if k > 0 then [Sleep PagePause (page_delay cfg)] else [])
           @ [Screenshot (PageIn dir (k + 1)) False]"
    by blast
  let ?w1 = "w\<lparr>calls := calls w @ e1,
                files := (files w)(PageIn dir (k + 1) \<mapsto> Shot False)\<rparr>"
  have "steady e (calls ?w1)" using Cons.prems by (simp add: steady_append)
  from Cons.IH [OF this] obtain e2 where
    more: "capture_pages e cfg dir vh ks ?w1 =
            Some (Inr (), ?w1\<lparr>calls := calls ?w1 @ e2,
                            files := (\<lambda>p. if p \<in> (\<lambda>k. PageIn dir (k + 1)) ` set ks
                                          then Some (Shot False) else files ?w1 p)\<rparr>)" and
    f2: "filter pacing_or_shot e2 = page_trace (page_delay cfg) dir ks"
    by blast
  have fs: "(\<lambda>p. if p \<in> (\<lambda>k. PageIn dir (k + 1)) ` set ks
                  then Some (Shot False) else files ?w1 p)
          = (\<lambda>p. if p \<in> (\<lambda>k. PageIn dir (k + 1)) ` set (k # ks)
                  then Some (Shot False) else files w p)"
    by (rule ext) auto
  have "capture_pages e cfg dir vh (k # ks) w =
          Some (Inr (), w\<lparr>calls := calls w @ (e1 @ e2),
                          files := (\<lambda>p. if p \<in> (\<lambda>k. PageIn dir (k + 1)) ` set (k # ks)
                                        then Some (Shot False) else files w p)\<rparr>)"
    using one more fs by (simp add: bind_prog_def)
  moreover have "filter pacing_or_shot (e1 @ e2) = page_trace (page_delay cfg) dir (k # ks)"
    using f1 f2 by (simp add: page_trace_def)
  ultimately show ?case by blast
qed

lemma page_trace_append:
  "page_trace d dir (xs @ ys) = page_trace d dir xs @ page_trace d dir ys"
  by (simp add: page_trace_def)

lemma page_trace_upt: "page_trace d dir (map int [0..<m]) = paced_shots d dir m"
proof (induction m)
  case 0
  show ?case by (simp add: page_trace_def paced_shots_def)
next
  case (Suc m)
  show ?case
  proof (cases "m = 0")
    case True
    then show ?thesis by (simp add: page_trace_def paced_shots_def)
  next
    case False
    then have r: "[2..<Suc (Suc m)] = [2..<Suc m] @ [Suc m]" by simp
    have "page_trace d dir (map int [0..<Suc m])
            = page_trace d dir (map int [0..<m]) @ page_trace d dir [int m]"
      by (simp add: page_trace_append)
    also have "\<dots> = paced_shots d dir m
                     @ [Sleep PagePause d, Screenshot (PageIn dir (int m + 1)) False]"
      using Suc False by (simp add: page_trace_def)
    also have "\<dots> = paced_shots d dir (Suc m)"
      using False by (simp add: paced_shots_def r add.commute del: upt_Suc)
    finally show ?thesis .
  qed
qed

lemma page_files_range: "(\<lambda>k. PageIn dir (k + 1)) ` set (py_range n) = PageIn dir ` {1..n}"
proof -
  have "set (py_range n) = {0..<n}"
  proof (rule set_eqI)
    fix x
    have "x \<in> set (py_range n) \<longleftrightarrow> (\<exists>j < nat n. x = int j)"
      by (auto simp: py_range_def)
    also have "\<dots> \<longleftrightarrow> 0 \<le> x \<and> x < n"
    proof
      assume "\<exists>j < nat n. x = int j" then show "0 \<le> x \<and> x < n" by auto
    next
      assume "0 \<le> x \<and> x < n"
      then have "nat x < nat n \<and> x = int (nat x)" by simp
      then show "\<exists>j < nat n. x = int j" by blast
    qed
    finally show "x \<in> set (py_range n) \<longleftrightarrow> x \<in> {0..<n}" by simp
  qed
  moreover have "(\<lambda>k. PageIn dir (k + 1)) ` {0..<n} = PageIn dir ` {1..n}"
  proof (rule set_eqI)
    fix p
    show "p \<in> (\<lambda>k. PageIn dir (k + 1)) ` {0..<n} \<longleftrightarrow> p \<in> PageIn dir ` {1..n}"
    proof
      assume "p \<in> (\<lambda>k. PageIn dir (k + 1)) ` {0..<n}"
      then obtain k where "0 \<le> k" "k < n" "p = PageIn dir (k + 1)" by auto
      then have "k + 1 \<in> {1..n}" "p = PageIn dir (k + 1)" by simp_all
      then show "p \<in> PageIn dir ` {1..n}" by blast
    next
      assume "p \<in> PageIn dir ` {1..n}"
      then obtain j where "1 \<le> j" "j \<le> n" "p = PageIn dir j" by auto
      then have "j - 1 \<in> {0..<n}" "p = PageIn dir ((j - 1) + 1)" by simp_all
      then show "p \<in> (\<lambda>k. PageIn dir (k + 1)) ` {0..<n}" by blast
    qed
  qed
  ultimately show ?thesis by simp
qed

lemma page_pause_simps [simp]:
  "page_pause (Sleep PagePause d)" "\<not> page_pause (Screenshot p f)"
  "no_shot (Sleep site d)" "\<not> no_shot (Screenshot p f)"
  by (simp_all add: page_pause_def no_shot_def)

lemma filter_page_pause_paced:
  "filter page_pause (paced_shots d dir m) = replicate (m - 1) (Sleep PagePause d)"
proof (induction m)
  case 0
  show ?case by (simp add: paced_shots_def)
next
  case (Suc m)
  show ?case
  proof (cases "m = 0")
    case True
    then show ?thesis by (simp add: paced_shots_def)
  next
    case False
    then have r: "[2..<Suc (Suc m)] = [2..<Suc m] @ [Suc m]" by simp
    have "paced_shots d dir (Suc m)
            = paced_shots d dir m @ [Sleep PagePause d, Screenshot (PageIn dir (int (Suc m))) False]"
      using False by (simp add: paced_shots_def r del: upt_Suc)
    then have "filter page_pause (paced_shots d dir (Suc m))
            = replicate (m - 1) (Sleep PagePause d) @ [Sleep PagePause d]"
      using Suc by simp
    also have "\<dots> = replicate (Suc m - 1) (Sleep PagePause d)"
      using False by (cases m) (simp_all add: replicate_append_same)
    finally show ?thesis .
  qed
qed

lemma filter_shots_paced:
  "filter (\<lambda>a. \<not> no_shot a) (paced_shots d dir m)
     = map (\<lambda>k. Screenshot (PageIn dir (int k)) False) [1..<Suc m]"
proof (induction m)
  case 0
  show ?case by (simp add: paced_shots_def)
next
  case (Suc m)
  show ?case
  proof (cases "m = 0")
    case True
    then show ?thesis by (simp add: paced_shots_def)
  next
    case False
    then have r: "[2..<Suc (Suc m)] = [2..<Suc m] @ [Suc m]" by simp
    have "paced_shots d dir (Suc m)
            = paced_shots d dir m @ [Sleep PagePause d, Screenshot (PageIn dir (int (Suc m))) False]"
      using False by (simp add: paced_shots_def r del: upt_Suc)
    then show ?thesis using Suc by simp
  qed
qed

lemma filter_filter_sub:
  assumes "\<And>a. P a \<Longrightarrow> Q a"
  shows "filter P (filter Q xs) = filter P xs"
  using assms by (induction xs) auto

lemma page_pause_pacing: "page_pause a \<Longrightarrow> pacing_or_shot a"
  by (simp add: pacing_or_shot_def)

lemma shot_pacing: "\<not> no_shot a \<Longrightarrow> pacing_or_shot a"
  by (simp add: pacing_or_shot_def)

text \<open>
  Claim C1. For a valid URL, when the directory and the page are set up, the measurements
  give \<open>total_height\<close> and a viewport height \<open>vh > 0\<close>, and from then on no call other than
  those of the popup dismissal fails: the page count \<open>(total_height + vh - 1) div vh\<close> is
  the ceiling of \<open>total_height / vh\<close>; \<open>capture_multiple_pages\<close> returns true; among the
  calls after the measurements, the pacing sleeps and the screenshots are, in this order,
  the screenshot of \<open>page_1.png\<close> and then, for each further page up to the page count, a
  sleep of \<open>page_delay\<close> followed by the screenshot of that page; the files written are
  exactly \<open>page_1.png\<close> to \<open>page_n.png\<close> of the directory. So there is one pacing sleep
  less than there are pages (none when there is no page).
\<close>

theorem multi_page_count_and_pacing:
  assumes valid: "is_valid_url (netloc_rejected e) url"
    and dir: "dir = output_directory e output_dir"
    and mk: "\<not> fails e (calls w) (Mkdir dir)"
    and sp: "setup_page e cfg False (w\<lparr>calls := calls w @ [Mkdir dir]\<rparr>) = Some (Inr (), w1)"
    and meas: "measure_page e cfg url w1 = Some (Inr (total_height, vh), w2)"
    and vh: "0 < vh"
    and st: "steady e (calls w2)"
    and n: "num_pages = (total_height + vh - 1) div vh"
  shows "num_pages = \<lceil>rat_of_int total_height / rat_of_int vh\<rceil>
       \<and> (\<exists>w' ext.
             capture_multiple_pages e cfg url output_dir w = Some (True, w')
             \<and> calls w' = calls w2 @ ext
             \<and> filter pacing_or_shot ext = paced_shots (page_delay cfg) dir (nat num_pages)
             \<and> filter page_pause ext
                 = replicate (nat num_pages - 1) (Sleep PagePause (page_delay cfg))
             \<and> filter (\<lambda>a. \<not> no_shot a) ext
                 = map (\<lambda>k. Screenshot (PageIn dir (int k)) False) [1..<Suc (nat num_pages)]
             \<and> files w' = (\<lambda>p. if p \<in> PageIn dir ` {1..num_pages} then Some (Shot False)
                                else files w p))"
proof -
  have ceil: "num_pages = \<lceil>rat_of_int total_height / rat_of_int vh\<rceil>"
    using n num_pages_ceiling [OF vh] by simp
  from capture_pages_steady [OF st, of cfg dir vh "py_range num_pages"] obtain ext where
    pages: "capture_pages e cfg dir vh (py_range num_pages) w2 =
              Some (Inr (), w2\<lparr>calls := calls w2 @ ext,
                files := (\<lambda>p. if p \<in> (\<lambda>k. PageIn dir (k + 1)) ` set (py_range num_pages)
                              then Some (Shot False) else files w2 p)\<rparr>)" and
    tr: "filter pacing_or_shot ext = page_trace (page_delay cfg) dir (py_range num_pages)"
    by blast
  let ?w3 = "w2\<lparr>calls := calls w2 @ ext,
                files := (\<lambda>p. if p \<in> (\<lambda>k. PageIn dir (k + 1)) ` set (py_range num_pages)
                              then Some (Shot False) else files w2 p)\<rparr>"
  have c1: "confined no_shot never (setup_page e cfg False)"
    by (rule confined_setup_page)
  have c2: "confined no_shot never (measure_page e cfg url)"
    by (rule confined_measure_page)
  have f2: "files w2 = files w"
    using confined_never_files [OF c1 sp] confined_never_files [OF c2 meas] by simp
  have pf: "pages_from e cfg dir total_height vh w2 = Some (Inr (), ?w3)"
    using vh n pages by (simp add: pages_from_def floor_div_def)
  have ms: "multi_steps e cfg url dir w1 = Some (Inr (), ?w3)"
    using meas pf by (simp add: multi_steps_def bind_prog_def)
  have run: "capture_multiple_pages e cfg url output_dir w = Some (True, close_page ?w3)"
    using valid dir mk sp ms by (simp add: capture_multiple_pages_def Let_def call_result)
  let ?ext = "ext @ [ClosePage]"
  have a: "calls (close_page ?w3) = calls w2 @ ?ext"
    by (simp add: close_page_def)
  have b: "filter pacing_or_shot ?ext = paced_shots (page_delay cfg) dir (nat num_pages)"
    using tr page_trace_upt [of "page_delay cfg" dir "nat num_pages"] by (simp add: py_range_def)
  have "filter page_pause (filter pacing_or_shot ?ext) = filter page_pause ?ext"
    by (rule filter_filter_sub) (rule page_pause_pacing)
  with b have c: "filter page_pause ?ext
                    = replicate (nat num_pages - 1) (Sleep PagePause (page_delay cfg))"
    by (simp only: filter_page_pause_paced)
  have "filter (\<lambda>a. \<not> no_shot a) (filter pacing_or_shot ?ext) = filter (\<lambda>a. \<not> no_shot a) ?ext"
    by (rule filter_filter_sub) (rule shot_pacing)
  with b have d: "filter (\<lambda>a. \<not> no_shot a) ?ext
                    = map (\<lambda>k. Screenshot (PageIn dir (int k)) False) [1..<Suc (nat num_pages)]"
    by (simp only: filter_shots_paced)
  have f: "files (close_page ?w3) = (\<lambda>p. if p \<in> PageIn dir ` {1..num_pages}
                                         then Some (Shot False) else files w p)"
    using f2 by (simp add: close_page_def page_files_range cong: if_cong)
  from run a b c d f have "\<exists>w' ext.
             capture_multiple_pages e cfg url output_dir w = Some (True, w')
             \<and> calls w' = calls w2 @ ext
             \<and> filter pacing_or_shot ext = paced_shots (page_delay cfg) dir (nat num_pages)
             \<and> filter page_pause ext
                 = replicate (nat num_pages - 1) (Sleep PagePause (page_delay cfg))
             \<and> filter (\<lambda>a. \<not> no_shot a) ext
                 = map (\<lambda>k. Screenshot (PageIn dir (int k)) False) [1..<Suc (nat num_pages)]
             \<and> files w' = (\<lambda>p. if p \<in> PageIn dir ` {1..num_pages} then Some (Shot False)
                                else files w p)"
    by blast
  with ceil show ?thesis by blast
qed

theorem multi_page_count_and_pacing_witness:
  "is_valid_url (netloc_rejected calm_env) ''https://example.org/''
   \<and> (\<lceil>rat_of_int 2500 / rat_of_int 1000\<rceil> :: int) = 3
   \<and> (\<exists>w'. capture_multiple_pages calm_env default_config ''https://example.org/'' (Some ''out'')
              fresh_world = Some (True, w')
            \<and> filter pacing_or_shot (calls w') =
                [Screenshot (PageIn ''out'' 1) False,
                 Sleep PagePause 2, Screenshot (PageIn ''out'' 2) False,
                 Sleep PagePause 2, Screenshot (PageIn ''out'' 3) False]
            \<and> files w' (PageIn ''out'' 1) = Some (Shot False)
            \<and> files w' (PageIn ''out'' 2) = Some (Shot False)
            \<and> files w' (PageIn ''out'' 3) = Some (Shot False)
            \<and> files w' (PageIn ''out'' 4) = None
            \<and> files w' (PageIn ''out'' 0) = None)"
proof -
  let ?url = "''https://example.org/''"
  have v: "is_valid_url (netloc_rejected calm_env) ?url"
    by (simp add: url_defs calm_env_def)
  have d: "''out'' = output_directory calm_env (Some ''out'')"
    by (simp add: output_directory_def)
  have mk: "\<not> fails calm_env (calls fresh_world) (Mkdir ''out'')"
    by (simp add: calm_env_def)
  have "\<exists>w1 w2. setup_page calm_env default_config False
                   (fresh_world\<lparr>calls := calls fresh_world @ [Mkdir ''out'']\<rparr>) = Some (Inr (), w1)
               \<and> measure_page calm_env default_config ?url w1 = Some (Inr (2500, 1000), w2)
               \<and> filter pacing_or_shot (calls w2) = []"
    by (simp add: run_defs multi_defs calm_env_def pacing_or_shot_def page_pause_def no_shot_def)
  then obtain w1 w2 where
    sp: "setup_page calm_env default_config False
           (fresh_world\<lparr>calls := calls fresh_world @ [Mkdir ''out'']\<rparr>) = Some (Inr (), w1)" and
    ms: "measure_page calm_env default_config ?url w1 = Some (Inr (2500, 1000), w2)" and
    quiet: "filter pacing_or_shot (calls w2) = []"
    by blast
  have st: "steady calm_env (calls w2)"
    by (simp add: steady_def calm_env_def)
  have three: "(2500 + 1000 - 1) div 1000 = (3::int)" by simp
  from multi_page_count_and_pacing [OF v d mk sp ms _ st three [symmetric]]
  obtain w' ext where
    ceil: "(3::int) = \<lceil>rat_of_int 2500 / rat_of_int 1000\<rceil>" and
    run: "capture_multiple_pages calm_env default_config ?url (Some ''out'') fresh_world
            = Some (True, w')" and
    cs: "calls w' = calls w2 @ ext" and
    tr: "filter pacing_or_shot ext = paced_shots (page_delay default_config) ''out'' (nat 3)" and
    fs: "files w' = (\<lambda>p. if p \<in> PageIn ''out'' ` {1..3} then Some (Shot False)
                          else files fresh_world p)"
    by auto
  have p3: "paced_shots (page_delay default_config) ''out'' (nat 3) =
                [Screenshot (PageIn ''out'' 1) False,
                 Sleep PagePause 2, Screenshot (PageIn ''out'' 2) False,
                 Sleep PagePause 2, Screenshot (PageIn ''out'' 3) False]"
    by (simp add: paced_shots_def default_config_def upt_rec)
  have "filter pacing_or_shot (calls w') =
                [Screenshot (PageIn ''out'' 1) False,
                 Sleep PagePause 2, Screenshot (PageIn ''out'' 2) False,
                 Sleep PagePause 2, Screenshot (PageIn ''out'' 3) False]"
    using cs tr quiet p3 by simp
  moreover have "files w' (PageIn ''out'' 1) = Some (Shot False)"
    "files w' (PageIn ''out'' 2) = Some (Shot False)"
    "files w' (PageIn ''out'' 3) = Some (Shot False)"
    "files w' (PageIn ''out'' 4) = None"
    "files w' (PageIn ''out'' 0) = None"
    using fs by (auto simp: fresh_world_def)
  ultimately show ?thesis using v ceil run by auto
qed

end
